theory Spec2Isabelle
  imports Main
begin

section \<open>The Supabase log shipper (supabase/supabase.py)\<close>

text \<open>
  A shallow embedding of class \<open>SupabaseLogger\<close>. The object's fields are a record that
  every method takes and returns; the outside world (the HTTP server behind
  \<open>requests.post\<close> and the clock behind \<open>datetime.now\<close>) is an environment that answers
  from the history of effects so far; every effect of a method is appended to that
  history, so that the number and the order of the calls can be read off it. An
  exception is the \<open>Inl\<close> branch of a sum.
\<close>

subsection \<open>Python values\<close>

text \<open>
  What \<open>response.json()\<close> can return, and therefore what the token fields can hold
  (Python's \<open>None\<close> is \<open>JNull\<close>). Numbers are integers here: a JSON number with a
  fraction is outside the model. An object is the list of its items, keys distinct.
\<close>

datatype json =
    JNull
  | JBool bool
  | JInt int
  | JStr string
  | JArr "json list"
  | JObj "(string \<times> json) list"

text \<open>Python's truth value of an object, as \<open>not x\<close>, \<open>x and y\<close>, \<open>x or y\<close> test it.\<close>

fun truthy :: "json \<Rightarrow> bool" where
  "truthy JNull = False"
| "truthy (JBool b) = b"
| "truthy (JInt n) = (n \<noteq> 0)"
| "truthy (JStr s) = (s \<noteq> [])"
| "truthy (JArr xs) = (xs \<noteq> [])"
| "truthy (JObj kvs) = (kvs \<noteq> [])"

text \<open>The truth value of \<open>self.expires_at\<close>, which is \<open>None\<close> or an integer.\<close>

fun truthy_int :: "int option \<Rightarrow> bool" where
  "truthy_int None = False"
| "truthy_int (Some n) = (n \<noteq> 0)"

datatype py_error =
    RequestException        \<comment> \<open>\<open>requests.post\<close> itself raised: no response object\<close>
  | HTTPError int           \<comment> \<open>\<open>raise_for_status\<close> on a 4xx or 5xx status\<close>
  | JSONDecodeError         \<comment> \<open>\<open>response.json()\<close> on a body that is not JSON\<close>
  | KeyError string
  | TypeError
  | AttributeError
  | UnboundLocalError

text \<open>\<open>data[k]\<close>: only a dict can be subscripted with a string.\<close>

fun subscript :: "json \<Rightarrow> string \<Rightarrow> py_error + json" where
  "subscript (JObj kvs) k = (case map_of kvs k of None \<Rightarrow> Inl (KeyError k) | Some v \<Rightarrow> Inr v)"
| "subscript _ k = Inl TypeError"

text \<open>\<open>data.get(k, d)\<close>.\<close>

fun dict_get :: "json \<Rightarrow> string \<Rightarrow> json \<Rightarrow> py_error + json" where
  "dict_get (JObj kvs) k d = (case map_of kvs k of None \<Rightarrow> Inr d | Some v \<Rightarrow> Inr v)"
| "dict_get _ k d = Inl AttributeError"

text \<open>\<open>n + v\<close> for an integer \<open>n\<close>: \<open>bool\<close> is a subclass of \<open>int\<close>, anything else raises.\<close>

fun int_add :: "int \<Rightarrow> json \<Rightarrow> py_error + int" where
  "int_add n (JInt m) = Inr (n + m)"
| "int_add n (JBool b) = Inr (n + (if b then 1 else 0))"
| "int_add n _ = Inl TypeError"

text \<open>
  A \<open>datetime\<close>: its position on its own time line in microseconds, and whether it is
  offset-aware. Subtracting an aware and a naive one raises \<open>TypeError\<close>.
\<close>

record py_datetime =
  stamp :: int
  aware :: bool

definition datetime_sub :: "py_datetime \<Rightarrow> py_datetime \<Rightarrow> py_error + int" where
  "datetime_sub a b = (if aware a = aware b then Inr (stamp a - stamp b) else Inl TypeError)"

subsection \<open>The log entry and the arguments of \<open>log_success\<close>\<close>

text \<open>
  The dict built at lines 164 to 180, one field per key. \<open>created_at\<close> is the clock value
  read for it, \<open>duration\<close> the difference in microseconds (the source turns both into a
  string and a float for the wire).
\<close>

record log_entry =
  created_at :: int
  request_timestamp :: py_datetime
  response_timestamp :: py_datetime
  bot_id :: string
  type_of_bot :: string
  user_id :: string
  channel_id :: string
  thread_id :: string
  user_message :: string
  input_attachments :: json
  system_prompt :: string
  chat_history_length :: int
  response_text :: string
  duration :: int
  output_attachments :: json

text \<open>The parameters of \<open>log_success\<close>, in the source's order.\<close>

record log_args =
  arg_user_id :: string
  arg_channel_id :: string
  arg_thread_id :: string
  arg_user_message :: string
  arg_response_text :: string
  arg_request_time :: py_datetime
  arg_response_time :: py_datetime
  arg_bot_id :: string
  arg_bot_name :: string
  arg_system_prompt :: string
  arg_input_attachments :: "json option"
  arg_chat_history_length :: "int option"
  arg_output_attachments :: "json option"

text \<open>\<open>x or {}\<close> and \<open>x or 0\<close> for the optional parameters.\<close>

fun or_empty_dict :: "json option \<Rightarrow> json" where
  "or_empty_dict None = JObj []"
| "or_empty_dict (Some d) = (if truthy d then d else JObj [])"

fun or_zero :: "int option \<Rightarrow> int" where
  "or_zero None = 0"
| "or_zero (Some n) = n"

subsection \<open>The logger object, the world and its history\<close>

record logger =
  url :: "string option"
  api_key :: "string option"
  auth_email :: "string option"
  auth_password :: "string option"
  access_token :: json
  refresh_token :: json
  expires_at :: "int option"

text \<open>
  The three POST requests of the class, with what each one sends: the base URL and API
  key, then the e-mail and password (\<open>grant_type=password\<close>), the refresh token
  (\<open>grant_type=refresh_token\<close>), or the bearer token and the entry (\<open>/rest/v1/bot_logs\<close>).
\<close>

datatype request =
    PasswordGrant "string option" "string option" "string option" "string option"
  | RefreshGrant "string option" "string option" json
  | InsertLog "string option" "string option" json log_entry

datatype http_outcome =
    PostRaised                      \<comment> \<open>no response: connection error, timeout, bad URL\<close>
  | Response int "json option"      \<comment> \<open>status code, and the body when it parses as JSON\<close>

datatype level = DEBUG | INFO | WARNING | ERROR

text \<open>The messages the class logs, without the interpolated exception text.\<close>

datatype message =
    Refresh_failed_falling_back     \<comment> \<open>line 63\<close>
  | Refreshed_token                 \<comment> \<open>line 95\<close>
  | Refresh_failed                  \<comment> \<open>line 98\<close>
  | Refresh_response                \<comment> \<open>line 100\<close>
  | Authenticated                   \<comment> \<open>line 124\<close>
  | Authentication_failed           \<comment> \<open>line 127\<close>
  | Auth_response                   \<comment> \<open>line 129\<close>
  | Insert_failed_new_token         \<comment> \<open>line 188\<close>
  | Failed_after_token_refresh      \<comment> \<open>line 195\<close>
  | Failed_log_entry                \<comment> \<open>line 197\<close>
  | Logged_bot_response             \<comment> \<open>line 219\<close>

text \<open>
  One effect: a request sent, a reading of the clock, a call of the logger, and the
  assignment \<open>self.access_token = None\<close> of line 190.
\<close>

datatype event =
    Post request
  | ReadClock
  | Log level message
  | ForceNewToken

type_synonym history = "event list"

text \<open>
  The world: how the server answers a request and what the clock shows, each after a
  given history. Any server and any clock is such a pair of functions.
\<close>

record env =
  respond :: "history \<Rightarrow> request \<Rightarrow> http_outcome"
  clock :: "history \<Rightarrow> int"

text \<open>\<open>response.raise_for_status()\<close>: statuses 400 to 599 raise.\<close>

definition raise_for_status :: "int \<Rightarrow> py_error + unit" where
  "raise_for_status st = (if 400 \<le> st \<and> st < 600 then Inl (HTTPError st) else Inr ())"

definition init :: "string option \<Rightarrow> string option \<Rightarrow> string option \<Rightarrow> string option \<Rightarrow> logger" where
  "init u k e p =
     \<lparr>url = u, api_key = k, auth_email = e, auth_password = p,
      access_token = JNull, refresh_token = JNull, expires_at = None\<rparr>"

subsection \<open>\<open>_authenticate\<close> and \<open>_refresh_token\<close>\<close>

text \<open>
  Lines 90 to 94 and 119 to 123 are the same five statements: the three assignments, in
  order, each able to raise after the ones before it have taken effect.
\<close>

definition store_tokens ::
  "env \<Rightarrow> json \<Rightarrow> logger \<Rightarrow> history \<Rightarrow> (py_error + unit) \<times> logger \<times> history" where
  "store_tokens w data s h =
     (case subscript data ''access_token'' of
        Inl e \<Rightarrow> (Inl e, s, h)
      | Inr a \<Rightarrow>
          (let s1 = s\<lparr>access_token := a\<rparr> in
           case subscript data ''refresh_token'' of
             Inl e \<Rightarrow> (Inl e, s1, h)
           | Inr r \<Rightarrow>
               (let s2 = s1\<lparr>refresh_token := r\<rparr>;
                    now = clock w h;
                    h1 = h @ [ReadClock] in
                case dict_get data ''expires_in'' (JInt 3600) of
                  Inl e \<Rightarrow> (Inl e, s2, h1)
                | Inr v \<Rightarrow>
                    (case int_add now v of
                       Inl e \<Rightarrow> (Inl e, s2, h1)
                     | Inr t \<Rightarrow> (Inr (), s2\<lparr>expires_at := Some t\<rparr>, h1)))))"

text \<open>The statements of the \<open>try\<close> block after the response has arrived.\<close>

definition read_token_response ::
  "env \<Rightarrow> int \<Rightarrow> json option \<Rightarrow> logger \<Rightarrow> history \<Rightarrow> (py_error + unit) \<times> logger \<times> history" where
  "read_token_response w st body s h =
     (case raise_for_status st of
        Inl e \<Rightarrow> (Inl e, s, h)
      | Inr _ \<Rightarrow>
          (case body of
             None \<Rightarrow> (Inl JSONDecodeError, s, h)
           | Some data \<Rightarrow> store_tokens w data s h))"

definition refresh_request :: "logger \<Rightarrow> request" where
  "refresh_request s = RefreshGrant (url s) (api_key s) (refresh_token s)"

definition auth_request :: "logger \<Rightarrow> request" where
  "auth_request s = PasswordGrant (url s) (api_key s) (auth_email s) (auth_password s)"

text \<open>
  When \<open>requests.post\<close> raises, \<open>response\<close> is unbound in the handler, so
  \<open>hasattr(response, 'text')\<close> raises \<open>UnboundLocalError\<close> in place of the first
  exception. Otherwise the handler logs twice and raises the exception again.
  The method \<open>_refresh_token\<close> is \<open>refresh_token_call\<close> here, the field keeps the
  name \<open>refresh_token\<close>.
\<close>

definition refresh_token_call ::
  "env \<Rightarrow> logger \<Rightarrow> history \<Rightarrow> (py_error + unit) \<times> logger \<times> history" where
  "refresh_token_call w s h =
     (let req = refresh_request s; h1 = h @ [Post req] in
      case respond w h req of
        PostRaised \<Rightarrow> (Inl UnboundLocalError, s, h1 @ [Log ERROR Refresh_failed])
      | Response st body \<Rightarrow>
          (case read_token_response w st body s h1 of
             (Inr _, s', h') \<Rightarrow> (Inr (), s', h' @ [Log INFO Refreshed_token])
           | (Inl e, s', h') \<Rightarrow>
               (Inl e, s', h' @ [Log ERROR Refresh_failed, Log DEBUG Refresh_response])))"

definition authenticate ::
  "env \<Rightarrow> logger \<Rightarrow> history \<Rightarrow> (py_error + unit) \<times> logger \<times> history" where
  "authenticate w s h =
     (let req = auth_request s; h1 = h @ [Post req] in
      case respond w h req of
        PostRaised \<Rightarrow> (Inl UnboundLocalError, s, h1 @ [Log ERROR Authentication_failed])
      | Response st body \<Rightarrow>
          (case read_token_response w st body s h1 of
             (Inr _, s', h') \<Rightarrow> (Inr (), s', h' @ [Log INFO Authenticated])
           | (Inl e, s', h') \<Rightarrow>
               (Inl e, s', h' @ [Log ERROR Authentication_failed, Log DEBUG Auth_response])))"

subsection \<open>\<open>_get_valid_token\<close>\<close>

text \<open>\<open>self._authenticate(); return self.access_token\<close>, which occurs three times.\<close>

definition authenticate_and_return ::
  "env \<Rightarrow> logger \<Rightarrow> history \<Rightarrow> (py_error + json) \<times> logger \<times> history" where
  "authenticate_and_return w s h =
     (case authenticate w s h of
        (Inl e, s', h') \<Rightarrow> (Inl e, s', h')
      | (Inr _, s', h') \<Rightarrow> (Inr (access_token s'), s', h'))"

definition get_valid_token ::
  "env \<Rightarrow> logger \<Rightarrow> history \<Rightarrow> (py_error + json) \<times> logger \<times> history" where
  "get_valid_token w s h =
     (if \<not> truthy (access_token s) then authenticate_and_return w s h
      else
        (let current_time = clock w h; h1 = h @ [ReadClock] in
         if truthy_int (expires_at s) \<and> current_time \<ge> the (expires_at s)
            \<and> truthy (refresh_token s)
         then
           (case refresh_token_call w s h1 of
              (Inr _, s', h') \<Rightarrow> (Inr (access_token s'), s', h')
            | (Inl e, s', h') \<Rightarrow>
                authenticate_and_return w s' (h' @ [Log WARNING Refresh_failed_falling_back]))
         else if truthy_int (expires_at s) \<and> current_time \<ge> the (expires_at s)
         then authenticate_and_return w s h1
         else (Inr (access_token s), s, h1)))"

subsection \<open>\<open>_insert_log\<close> and \<open>log_success\<close>\<close>

definition insert_log ::
  "env \<Rightarrow> log_entry \<Rightarrow> logger \<Rightarrow> history \<Rightarrow> (py_error + unit) \<times> logger \<times> history" where
  "insert_log w entry s h =
     (case get_valid_token w s h of
        (Inl e, s', h') \<Rightarrow> (Inl e, s', h')
      | (Inr token, s', h') \<Rightarrow>
          (let req = InsertLog (url s') (api_key s') token entry; h1 = h' @ [Post req] in
           case respond w h' req of
             PostRaised \<Rightarrow> (Inl RequestException, s', h1)
           | Response st body \<Rightarrow>
               (case raise_for_status st of
                  Inl e \<Rightarrow> (Inl e, s', h1)
                | Inr _ \<Rightarrow> (Inr (), s', h1 @ [Log INFO Logged_bot_response]))))"

text \<open>Lines 164 to 180: the clock is read first, the subtraction can raise.\<close>

definition build_entry :: "env \<Rightarrow> log_args \<Rightarrow> history \<Rightarrow> (py_error + log_entry) \<times> history" where
  "build_entry w a h =
     (let now = clock w h; h1 = h @ [ReadClock] in
      case datetime_sub (arg_response_time a) (arg_request_time a) of
        Inl e \<Rightarrow> (Inl e, h1)
      | Inr d \<Rightarrow>
          (Inr \<lparr>created_at = now,
                request_timestamp = arg_request_time a,
                response_timestamp = arg_response_time a,
                bot_id = arg_bot_id a,
                type_of_bot = arg_bot_name a,
                user_id = arg_user_id a,
                channel_id = arg_channel_id a,
                thread_id = arg_thread_id a,
                user_message = arg_user_message a,
                input_attachments = or_empty_dict (arg_input_attachments a),
                system_prompt = arg_system_prompt a,
                chat_history_length = or_zero (arg_chat_history_length a),
                response_text = arg_response_text a,
                duration = d,
                output_attachments = or_empty_dict (arg_output_attachments a)\<rparr>, h1))"

text \<open>Lines 182 to 197: the two nested \<open>try\<close> blocks.\<close>

definition send_with_retry ::
  "env \<Rightarrow> log_entry \<Rightarrow> logger \<Rightarrow> history \<Rightarrow> (py_error + unit) \<times> logger \<times> history" where
  "send_with_retry w entry s h =
     (case insert_log w entry s h of
        (Inr _, s1, h1) \<Rightarrow> (Inr (), s1, h1)
      | (Inl e, s1, h1) \<Rightarrow>
          (let h2 = h1 @ [Log INFO Insert_failed_new_token];
               s2 = s1\<lparr>access_token := JNull\<rparr>;
               h3 = h2 @ [ForceNewToken] in
           case insert_log w entry s2 h3 of
             (Inr _, s3, h4) \<Rightarrow> (Inr (), s3, h4)
           | (Inl e', s3, h4) \<Rightarrow>
               (Inr (), s3, h4 @ [Log ERROR Failed_after_token_refresh, Log DEBUG Failed_log_entry])))"

definition log_success ::
  "env \<Rightarrow> log_args \<Rightarrow> logger \<Rightarrow> history \<Rightarrow> (py_error + unit) \<times> logger \<times> history" where
  "log_success w a s h =
     (case build_entry w a h of
        (Inl e, h1) \<Rightarrow> (Inl e, s, h1)
      | (Inr entry, h1) \<Rightarrow> send_with_retry w entry s h1)"

subsection \<open>Reading a history\<close>

fun posts :: "history \<Rightarrow> request list" where
  "posts [] = []"
| "posts (Post r # es) = r # posts es"
| "posts (_ # es) = posts es"

fun is_auth :: "request \<Rightarrow> bool" where
  "is_auth (PasswordGrant _ _ _ _) = True"
| "is_auth _ = False"

fun is_refresh :: "request \<Rightarrow> bool" where
  "is_refresh (RefreshGrant _ _ _) = True"
| "is_refresh _ = False"

fun is_insert :: "request \<Rightarrow> bool" where
  "is_insert (InsertLog _ _ _ _) = True"
| "is_insert _ = False"

definition auth_calls :: "history \<Rightarrow> nat" where
  "auth_calls h = length (filter is_auth (posts h))"

definition refresh_calls :: "history \<Rightarrow> nat" where
  "refresh_calls h = length (filter is_refresh (posts h))"

definition insert_calls :: "history \<Rightarrow> nat" where
  "insert_calls h = length (filter is_insert (posts h))"

definition invalidations :: "history \<Rightarrow> nat" where
  "invalidations h = length (filter (\<lambda>e. e = ForceNewToken) h)"

text \<open>
  The fields read from the environment at construction; no method assigns them.
\<close>

definition same_config :: "logger \<Rightarrow> logger \<Rightarrow> bool" where
  "same_config s s' =
     (url s' = url s \<and> api_key s' = api_key s \<and> auth_email s' = auth_email s
      \<and> auth_password s' = auth_password s)"

subsection \<open>Kinds of token response\<close>

text \<open>
  A response to a token request fails before the first assignment when no response comes,
  when \<open>raise_for_status\<close> raises, when the body is not JSON, or when \<open>data["access_token"]\<close>
  raises.
\<close>

definition fails_before_store :: "http_outcome \<Rightarrow> bool" where
  "fails_before_store out =
     (case out of
        PostRaised \<Rightarrow> True
      | Response st body \<Rightarrow>
          (case raise_for_status st of
             Inl _ \<Rightarrow> True
           | Inr _ \<Rightarrow>
               (case body of
                  None \<Rightarrow> True
                | Some data \<Rightarrow> isl (subscript data ''access_token''))))"

text \<open>
  A body from which all three assignments succeed: both tokens present, and
  \<open>expires_in\<close> absent or something an integer can be added to.
\<close>

definition complete_body :: "json \<Rightarrow> bool" where
  "complete_body data =
     (case subscript data ''access_token'' of
        Inl _ \<Rightarrow> False
      | Inr _ \<Rightarrow>
          (case subscript data ''refresh_token'' of
             Inl _ \<Rightarrow> False
           | Inr _ \<Rightarrow>
               (case dict_get data ''expires_in'' (JInt 3600) of
                  Inl _ \<Rightarrow> False
                | Inr v \<Rightarrow> \<not> isl (int_add 0 v))))"

text \<open>A response from which \<open>_authenticate\<close> or \<open>_refresh_token\<close> runs to its end.\<close>

definition grants :: "http_outcome \<Rightarrow> bool" where
  "grants out =
     (case out of
        PostRaised \<Rightarrow> False
      | Response st body \<Rightarrow>
          (case raise_for_status st of
             Inl _ \<Rightarrow> False
           | Inr _ \<Rightarrow> (case body of None \<Rightarrow> False | Some data \<Rightarrow> complete_body data)))"

text \<open>
  A response that either fails before the first assignment or is complete and carries an
  access token other than \<open>None\<close>.
\<close>

definition all_or_nothing :: "http_outcome \<Rightarrow> bool" where
  "all_or_nothing out =
     (fails_before_store out
      \<or> (case out of
            PostRaised \<Rightarrow> False
          | Response st body \<Rightarrow>
              (case body of
                 None \<Rightarrow> False
               | Some data \<Rightarrow> complete_body data \<and> subscript data ''access_token'' \<noteq> Inr JNull)))"

subsection \<open>Sequences of calls, and what the history says about the token\<close>

text \<open>
  Reading a history from the start: a token has been granted after the message of a
  successful \<open>_authenticate\<close> or \<open>_refresh_token\<close> (lines 124 and 95), and no longer
  after the assignment of line 190.
\<close>

definition token_step :: "bool \<Rightarrow> event \<Rightarrow> bool" where
  "token_step b e =
     (if e = Log INFO Authenticated \<or> e = Log INFO Refreshed_token then True
      else if e = ForceNewToken then False
      else b)"

definition token_granted :: "history \<Rightarrow> bool" where
  "token_granted h = foldl token_step False h"

text \<open>The methods of the class as operations on the object and the history.\<close>

datatype operation =
    Call_log_success log_args
  | Call_get_valid_token
  | Call_refresh_token
  | Call_authenticate
  | Call_insert_log log_entry

fun apply_operation :: "env \<Rightarrow> logger \<times> history \<Rightarrow> operation \<Rightarrow> logger \<times> history" where
  "apply_operation w (s, h) (Call_log_success a) = snd (log_success w a s h)"
| "apply_operation w (s, h) Call_get_valid_token = snd (get_valid_token w s h)"
| "apply_operation w (s, h) Call_refresh_token = snd (refresh_token_call w s h)"
| "apply_operation w (s, h) Call_authenticate = snd (authenticate w s h)"
| "apply_operation w (s, h) (Call_insert_log entry) = snd (insert_log w entry s h)"

text \<open>Any sequence of calls on an object with the given initial fields, in a new world.\<close>

definition run :: "env \<Rightarrow> logger \<Rightarrow> operation list \<Rightarrow> logger \<times> history" where
  "run w s0 ops = foldl (apply_operation w) (s0, []) ops"

definition token_inv :: "logger \<times> history \<Rightarrow> bool" where
  "token_inv c = ((access_token (fst c) = JNull) = (\<not> token_granted (snd c)))"

subsection \<open>Concrete objects, arguments and worlds\<close>

text \<open>A new logger with all four settings present.\<close>

definition demo_logger :: logger where
  "demo_logger = init (Some ''https://db.example'') (Some ''anon-key'') (Some ''bot@example.com'') (Some ''secret'')"

text \<open>A logger that holds a token and a refresh token, with the given expiry.\<close>

definition held_logger :: "int option \<Rightarrow> logger" where
  "held_logger exp = demo_logger\<lparr>access_token := JStr ''t0'', refresh_token := JStr ''r0'',
     expires_at := exp\<rparr>"

text \<open>The same with an empty string as the access token, or as the refresh token.\<close>

definition empty_token_logger :: "int option \<Rightarrow> logger" where
  "empty_token_logger exp = (held_logger exp)\<lparr>access_token := JStr []\<rparr>"

definition empty_refresh_logger :: "int option \<Rightarrow> logger" where
  "empty_refresh_logger exp = (held_logger exp)\<lparr>refresh_token := JStr []\<rparr>"

definition token_body :: "string \<Rightarrow> json" where
  "token_body t = JObj [(''access_token'', JStr t), (''refresh_token'', JStr (''r-'' @ t)), (''expires_in'', JInt 3600)]"

text \<open>
  A server that grants every password request (token \<open>t1\<close> the first time, \<open>t2\<close>
  afterwards), rejects every refresh with status 400, and answers the first insert
  with 401 and every later one with 200. The clock stands at 1000.
\<close>

definition demo_respond :: "history \<Rightarrow> request \<Rightarrow> http_outcome" where
  "demo_respond h req =
     (case req of
        PasswordGrant u k e p \<Rightarrow> Response 200 (Some (token_body (if auth_calls h = 0 then ''t1'' else ''t2'')))
      | RefreshGrant u k r \<Rightarrow> Response 400 None
      | InsertLog u k t entry \<Rightarrow> Response (if insert_calls h = 0 then 401 else 200) None)"

definition demo_env :: env where
  "demo_env = \<lparr>respond = demo_respond, clock = (\<lambda>h. 1000)\<rparr>"

text \<open>A world in which every request raises.\<close>

definition down_env :: env where
  "down_env = \<lparr>respond = (\<lambda>h req. PostRaised), clock = (\<lambda>h. 1000)\<rparr>"

text \<open>
  A server whose answer to a password request has an access token and no refresh token.
\<close>

definition partial_respond :: "history \<Rightarrow> request \<Rightarrow> http_outcome" where
  "partial_respond h req =
     (case req of
        PasswordGrant u k e p \<Rightarrow> Response 200 (Some (JObj [(''access_token'', JStr ''t1'')]))
      | RefreshGrant u k r \<Rightarrow> Response 400 None
      | InsertLog u k t entry \<Rightarrow> Response 200 None)"

definition partial_env :: env where
  "partial_env = \<lparr>respond = partial_respond, clock = (\<lambda>h. 1000)\<rparr>"

definition naive_at :: "int \<Rightarrow> py_datetime" where
  "naive_at t = \<lparr>stamp = t, aware = False\<rparr>"

definition aware_at :: "int \<Rightarrow> py_datetime" where
  "aware_at t = \<lparr>stamp = t, aware = True\<rparr>"

text \<open>Arguments with two naive timestamps, and the same with an aware response time.\<close>

definition demo_args :: log_args where
  "demo_args =
     \<lparr>arg_user_id = ''U1'', arg_channel_id = ''C1'', arg_thread_id = ''T1'',
      arg_user_message = ''hi'', arg_response_text = ''hello'',
      arg_request_time = naive_at 5000000, arg_response_time = naive_at 7000000,
      arg_bot_id = ''B1'', arg_bot_name = ''onyx'', arg_system_prompt = ''be brief'',
      arg_input_attachments = None, arg_chat_history_length = None,
      arg_output_attachments = None\<rparr>"

definition mixed_args :: log_args where
  "mixed_args = demo_args\<lparr>arg_response_time := aware_at 7000000\<rparr>"

text \<open>The entry built from \<open>demo_args\<close> when the clock shows 1000.\<close>

definition demo_entry :: log_entry where
  "demo_entry =
     \<lparr>created_at = 1000,
      request_timestamp = naive_at 5000000, response_timestamp = naive_at 7000000,
      bot_id = ''B1'', type_of_bot = ''onyx'', user_id = ''U1'', channel_id = ''C1'',
      thread_id = ''T1'', user_message = ''hi'', input_attachments = JObj [],
      system_prompt = ''be brief'', chat_history_length = 0, response_text = ''hello'',
      duration = 2000000, output_attachments = JObj []\<rparr>"

section \<open>Effects of each method\<close>

subsection \<open>Counting in a history\<close>

lemma posts_append: "posts (xs @ ys) = posts xs @ posts ys"
  by (induction xs rule: posts.induct) simp_all

lemma invalidations_append: "invalidations (xs @ ys) = invalidations xs + invalidations ys"
  by (simp add: invalidations_def)

lemma auth_calls_append: "auth_calls (xs @ ys) = auth_calls xs + auth_calls ys"
  by (simp add: auth_calls_def posts_append)

lemma refresh_calls_append: "refresh_calls (xs @ ys) = refresh_calls xs + refresh_calls ys"
  by (simp add: refresh_calls_def posts_append)

lemma insert_calls_append: "insert_calls (xs @ ys) = insert_calls xs + insert_calls ys"
  by (simp add: insert_calls_def posts_append)

lemma insert_calls_no_insert: "posts ev = [auth_request s] \<Longrightarrow> insert_calls ev = 0"
  by (simp add: insert_calls_def auth_request_def)

lemma insert_calls_refresh: "posts ev = [refresh_request s] \<Longrightarrow> insert_calls ev = 0"
  by (simp add: insert_calls_def refresh_request_def)

lemma same_config_refl: "same_config s s"
  by (simp add: same_config_def)

lemma same_config_trans: "same_config s s1 \<Longrightarrow> same_config s1 s2 \<Longrightarrow> same_config s s2"
  by (simp add: same_config_def)

lemma same_config_auth_request: "same_config s s' \<Longrightarrow> auth_request s' = auth_request s"
  by (simp add: same_config_def auth_request_def)

subsection \<open>Requests sent and fields kept\<close>

text \<open>
  Each method only appends to the history; these lemmas say which requests it appends
  and that it neither assigns a setting nor records an invalidation.
\<close>

lemma store_tokens_effects:
  assumes "store_tokens w d s h = (r, s', h')"
  shows "\<exists>ev. h' = h @ ev \<and> posts ev = [] \<and> invalidations ev = 0" and "same_config s s'"
  using assms
  by (auto simp: store_tokens_def Let_def invalidations_def same_config_def split: sum.splits)

lemma read_token_response_effects:
  assumes "read_token_response w st b s h = (r, s', h')"
  shows "\<exists>ev. h' = h @ ev \<and> posts ev = [] \<and> invalidations ev = 0" and "same_config s s'"
  using assms
  by (auto simp: read_token_response_def same_config_def invalidations_def
      dest: store_tokens_effects split: sum.splits option.splits)

lemma authenticate_effects:
  assumes "authenticate w s h = (r, s', h')"
  shows "\<exists>ev. h' = h @ ev \<and> posts ev = [auth_request s] \<and> invalidations ev = 0"
    and "same_config s s'"
proof -
  show "\<exists>ev. h' = h @ ev \<and> posts ev = [auth_request s] \<and> invalidations ev = 0"
    using assms
    by (auto simp: authenticate_def Let_def posts_append invalidations_append invalidations_def
      dest!: read_token_response_effects(1) split: sum.splits http_outcome.splits prod.splits)
  show "same_config s s'"
    using assms
    by (auto simp: authenticate_def Let_def same_config_def
      dest!: read_token_response_effects(2) split: sum.splits http_outcome.splits prod.splits)
qed

lemma refresh_effects:
  assumes "refresh_token_call w s h = (r, s', h')"
  shows "\<exists>ev. h' = h @ ev \<and> posts ev = [refresh_request s] \<and> invalidations ev = 0"
    and "same_config s s'"
proof -
  show "\<exists>ev. h' = h @ ev \<and> posts ev = [refresh_request s] \<and> invalidations ev = 0"
    using assms
    by (auto simp: refresh_token_call_def Let_def posts_append invalidations_append invalidations_def
      dest!: read_token_response_effects(1) split: sum.splits http_outcome.splits prod.splits)
  show "same_config s s'"
    using assms
    by (auto simp: refresh_token_call_def Let_def same_config_def
      dest!: read_token_response_effects(2) split: sum.splits http_outcome.splits prod.splits)
qed

lemma authenticate_and_return_effects:
  assumes "authenticate_and_return w s h = (r, s', h')"
  shows "\<exists>ev. h' = h @ ev \<and> posts ev = [auth_request s] \<and> invalidations ev = 0"
    and "same_config s s'"
  using assms
  by (auto simp: authenticate_and_return_def dest: authenticate_effects split: sum.splits prod.splits)

lemma authenticate_and_return_quiet:
  assumes "authenticate_and_return w s h = (r, s', h')"
  shows "\<exists>ev. h' = h @ ev \<and> insert_calls ev = 0 \<and> invalidations ev = 0"
  using authenticate_and_return_effects(1)[OF assms] insert_calls_no_insert by blast

lemma refresh_quiet:
  assumes "refresh_token_call w s h = (r, s', h')"
  shows "\<exists>ev. h' = h @ ev \<and> insert_calls ev = 0 \<and> invalidations ev = 0"
  using refresh_effects(1)[OF assms] insert_calls_refresh by blast

lemma get_valid_token_effects:
  assumes "get_valid_token w s h = (r, s', h')"
  shows "\<exists>ev. h' = h @ ev \<and> insert_calls ev = 0 \<and> invalidations ev = 0" and "same_config s s'"
proof -
  have "(\<exists>ev. h' = h @ ev \<and> insert_calls ev = 0 \<and> invalidations ev = 0) \<and> same_config s s'"
  proof (cases "truthy (access_token s)")
    case False
    with assms have "authenticate_and_return w s h = (r, s', h')"
      by (simp add: get_valid_token_def)
    then show ?thesis
      using authenticate_and_return_quiet authenticate_and_return_effects(2) by blast
  next
    case tok: True
    let ?h1 = "h @ [ReadClock]"
    have q1: "insert_calls [ReadClock] = 0" "invalidations [ReadClock] = 0"
      by (simp_all add: insert_calls_def invalidations_def)
    show ?thesis
    proof (cases "truthy_int (expires_at s) \<and> clock w h \<ge> the (expires_at s)")
      case False
      with tok assms have "r = Inr (access_token s) \<and> s' = s \<and> h' = ?h1"
        by (auto simp: get_valid_token_def Let_def)
      with q1 show ?thesis by (auto simp: same_config_refl)
    next
      case exp: True
      show ?thesis
      proof (cases "truthy (refresh_token s)")
        case False
        with tok exp assms have "authenticate_and_return w s ?h1 = (r, s', h')"
          by (simp add: get_valid_token_def Let_def)
        from authenticate_and_return_quiet[OF this] authenticate_and_return_effects(2)[OF this]
        obtain ev where "h' = ?h1 @ ev" "insert_calls ev = 0" "invalidations ev = 0" "same_config s s'"
          by blast
        then have "h' = h @ (ReadClock # ev) \<and> insert_calls (ReadClock # ev) = 0
                   \<and> invalidations (ReadClock # ev) = 0"
          by (simp add: insert_calls_def invalidations_def)
        with \<open>same_config s s'\<close> show ?thesis by blast
      next
        case rt: True
        obtain rr s1 h1 where f: "refresh_token_call w s ?h1 = (rr, s1, h1)"
          by (cases "refresh_token_call w s ?h1") auto
        from refresh_quiet[OF f] refresh_effects(2)[OF f]
        obtain ev where ev: "h1 = ?h1 @ ev" "insert_calls ev = 0" "invalidations ev = 0"
          and sc: "same_config s s1" by blast
        show ?thesis
        proof (cases rr)
          case (Inr u)
          with tok exp rt f assms have "s' = s1 \<and> h' = h1"
            by (simp add: get_valid_token_def Let_def)
          with ev sc have "h' = h @ (ReadClock # ev) \<and> insert_calls (ReadClock # ev) = 0
                   \<and> invalidations (ReadClock # ev) = 0 \<and> same_config s s'"
            by (simp add: insert_calls_def invalidations_def)
          then show ?thesis by blast
        next
          case (Inl err)
          with tok exp rt f assms
          have ar: "authenticate_and_return w s1 (h1 @ [Log WARNING Refresh_failed_falling_back]) = (r, s', h')"
            by (simp add: get_valid_token_def Let_def)
          from authenticate_and_return_quiet[OF ar] authenticate_and_return_effects(2)[OF ar]
          obtain ev2 where ev2: "h' = (h1 @ [Log WARNING Refresh_failed_falling_back]) @ ev2"
            "insert_calls ev2 = 0" "invalidations ev2 = 0" and sc2: "same_config s1 s'" by blast
          let ?ev = "ReadClock # ev @ Log WARNING Refresh_failed_falling_back # ev2"
          from ev ev2 have "h' = h @ ?ev \<and> insert_calls ?ev = 0 \<and> invalidations ?ev = 0"
            by (simp add: insert_calls_def invalidations_def posts_append)
          with same_config_trans[OF sc sc2] show ?thesis by blast
        qed
      qed
    qed
  qed
  then show "\<exists>ev. h' = h @ ev \<and> insert_calls ev = 0 \<and> invalidations ev = 0" and "same_config s s'"
    by blast+
qed

lemma insert_log_cases:
  assumes "insert_log w entry s h = (r, s', h')"
  obtains (token_failed) e where "get_valid_token w s h = (Inl e, s', h')" "r = Inl e"
  | (post_failed) tok h1 e where "get_valid_token w s h = (Inr tok, s', h1)"
      "h' = h1 @ [Post (InsertLog (url s') (api_key s') tok entry)]" "r = Inl e"
  | (ok) tok h1 where "get_valid_token w s h = (Inr tok, s', h1)"
      "h' = h1 @ [Post (InsertLog (url s') (api_key s') tok entry), Log INFO Logged_bot_response]"
      "r = Inr ()"
proof (cases "get_valid_token w s h")
  case (fields rt s1 h1)
  show ?thesis
  proof (cases rt)
    case (Inl e)
    with fields assms have "get_valid_token w s h = (Inl e, s', h')" "r = Inl e"
      by (auto simp: insert_log_def)
    then show ?thesis by (rule token_failed)
  next
    case (Inr tok)
    let ?req = "InsertLog (url s1) (api_key s1) tok entry"
    show ?thesis
    proof (cases "respond w h1 ?req")
      case PostRaised
      with Inr fields assms
      have "s' = s1" "h' = h1 @ [Post ?req]" "r = Inl RequestException"
        by (auto simp: insert_log_def Let_def)
      with Inr fields show ?thesis by (intro post_failed) simp_all
    next
      case (Response st body)
      show ?thesis
      proof (cases "raise_for_status st")
        case (Inl e)
        with Response Inr fields assms
        have "s' = s1" "h' = h1 @ [Post ?req]" "r = Inl e"
          by (auto simp: insert_log_def Let_def)
        with Inr fields show ?thesis by (intro post_failed) simp_all
      next
        case ok_status: (Inr u)
        with Response Inr fields assms
        have "s' = s1" "h' = h1 @ [Post ?req, Log INFO Logged_bot_response]" "r = Inr ()"
          by (auto simp: insert_log_def Let_def)
        with Inr fields show ?thesis by (intro ok) simp_all
      qed
    qed
  qed
qed

lemma insert_log_effects:
  assumes "insert_log w entry s h = (r, s', h')"
  shows "\<exists>ev. h' = h @ ev \<and> insert_calls ev \<le> 1 \<and> invalidations ev = 0" and "same_config s s'"
proof -
  have "(\<exists>ev. h' = h @ ev \<and> insert_calls ev \<le> 1 \<and> invalidations ev = 0) \<and> same_config s s'"
    using assms
  proof (cases rule: insert_log_cases)
    case (token_failed e)
    from get_valid_token_effects[OF token_failed(1)] show ?thesis by auto
  next
    case (post_failed tok h1 e)
    from get_valid_token_effects[OF post_failed(1)]
    obtain ev where "h1 = h @ ev" "insert_calls ev = 0" "invalidations ev = 0" "same_config s s'"
      by blast
    with post_failed(2)
    have "h' = h @ (ev @ [Post (InsertLog (url s') (api_key s') tok entry)])
        \<and> insert_calls (ev @ [Post (InsertLog (url s') (api_key s') tok entry)]) \<le> 1
        \<and> invalidations (ev @ [Post (InsertLog (url s') (api_key s') tok entry)]) = 0"
      by (simp add: insert_calls_def invalidations_def posts_append)
    with \<open>same_config s s'\<close> show ?thesis by blast
  next
    case (ok tok h1)
    from get_valid_token_effects[OF ok(1)]
    obtain ev where "h1 = h @ ev" "insert_calls ev = 0" "invalidations ev = 0" "same_config s s'"
      by blast
    with ok(2)
    have "h' = h @ (ev @ [Post (InsertLog (url s') (api_key s') tok entry), Log INFO Logged_bot_response])
        \<and> insert_calls (ev @ [Post (InsertLog (url s') (api_key s') tok entry), Log INFO Logged_bot_response]) \<le> 1
        \<and> invalidations (ev @ [Post (InsertLog (url s') (api_key s') tok entry), Log INFO Logged_bot_response]) = 0"
      by (simp add: insert_calls_def invalidations_def posts_append)
    with \<open>same_config s s'\<close> show ?thesis by blast
  qed
  then show "\<exists>ev. h' = h @ ev \<and> insert_calls ev \<le> 1 \<and> invalidations ev = 0" and "same_config s s'"
    by blast+
qed

lemma insert_log_ok_one_insert:
  assumes "insert_log w entry s h = (Inr u, s', h')"
  shows "insert_calls h' = insert_calls h + 1"
  using assms
proof (cases rule: insert_log_cases)
  case (ok tok h1)
  from get_valid_token_effects(1)[OF ok(1)] ok(2) show ?thesis
    by (auto simp: insert_calls_append) (simp add: insert_calls_def)
qed simp_all

lemma insert_log_no_token:
  assumes "access_token s = JNull" and "insert_log w entry s h = (r, s', h')"
  shows "\<exists>ev. h' = h @ ev
          \<and> (posts ev = [auth_request s]
             \<or> (\<exists>tok. posts ev = [auth_request s, InsertLog (url s) (api_key s) tok entry]))"
proof -
  have gv: "get_valid_token w s h = authenticate_and_return w s h"
    using assms(1) by (simp add: get_valid_token_def)
  from assms(2) show ?thesis
  proof (cases rule: insert_log_cases)
    case (token_failed e)
    with gv authenticate_and_return_effects(1)[of w s h "Inl e" s' h'] show ?thesis by auto
  next
    case (post_failed tok h1 e)
    with gv authenticate_and_return_effects[of w s h "Inr tok" s' h1]
    obtain ev where "h1 = h @ ev" "posts ev = [auth_request s]" "same_config s s'" by auto
    with post_failed(2)
    have "h' = h @ (ev @ [Post (InsertLog (url s) (api_key s) tok entry)])
        \<and> posts (ev @ [Post (InsertLog (url s) (api_key s) tok entry)])
            = [auth_request s, InsertLog (url s) (api_key s) tok entry]"
      by (simp add: posts_append same_config_def)
    then show ?thesis by blast
  next
    case (ok tok h1)
    with gv authenticate_and_return_effects[of w s h "Inr tok" s' h1]
    obtain ev where "h1 = h @ ev" "posts ev = [auth_request s]" "same_config s s'" by auto
    with ok(2)
    have "h' = h @ (ev @ [Post (InsertLog (url s) (api_key s) tok entry), Log INFO Logged_bot_response])
        \<and> posts (ev @ [Post (InsertLog (url s) (api_key s) tok entry), Log INFO Logged_bot_response])
            = [auth_request s, InsertLog (url s) (api_key s) tok entry]"
      by (simp add: posts_append same_config_def)
    then show ?thesis by blast
  qed
qed

lemma build_entry_history: "build_entry w a h = (r, h1) \<Longrightarrow> h1 = h @ [ReadClock]"
  by (auto simp: build_entry_def Let_def split: sum.splits)

lemma build_entry_ok:
  "aware (arg_request_time a) = aware (arg_response_time a) \<Longrightarrow>
     \<exists>entry. build_entry w a h = (Inr entry, h @ [ReadClock])"
  by (simp add: build_entry_def Let_def datetime_sub_def)

lemma send_with_retry_cases:
  obtains (first_ok) s1 h1 where
      "insert_log w entry s h = (Inr (), s1, h1)"
      "send_with_retry w entry s h = (Inr (), s1, h1)"
  | (retry_ok) e s1 h1 s3 h4 where
      "insert_log w entry s h = (Inl e, s1, h1)"
      "insert_log w entry (s1\<lparr>access_token := JNull\<rparr>)
         (h1 @ [Log INFO Insert_failed_new_token, ForceNewToken]) = (Inr (), s3, h4)"
      "send_with_retry w entry s h = (Inr (), s3, h4)"
  | (both_failed) e s1 h1 e' s3 h4 where
      "insert_log w entry s h = (Inl e, s1, h1)"
      "insert_log w entry (s1\<lparr>access_token := JNull\<rparr>)
         (h1 @ [Log INFO Insert_failed_new_token, ForceNewToken]) = (Inl e', s3, h4)"
      "send_with_retry w entry s h =
         (Inr (), s3, h4 @ [Log ERROR Failed_after_token_refresh, Log DEBUG Failed_log_entry])"
proof (cases "insert_log w entry s h")
  case (fields r1 s1 h1)
  show ?thesis
  proof (cases r1)
    case (Inr u)
    with fields show ?thesis
      by (intro first_ok[of s1 h1]) (simp_all add: send_with_retry_def)
  next
    case (Inl e)
    let ?h3 = "h1 @ [Log INFO Insert_failed_new_token, ForceNewToken]"
    obtain r2 s3 h4 where f2: "insert_log w entry (s1\<lparr>access_token := JNull\<rparr>) ?h3 = (r2, s3, h4)"
      by (cases "insert_log w entry (s1\<lparr>access_token := JNull\<rparr>) ?h3") auto
    show ?thesis
    proof (cases r2)
      case (Inr u)
      with Inl fields f2 show ?thesis
        by (intro retry_ok[of e s1 h1 s3 h4]) (simp_all add: send_with_retry_def Let_def)
    next
      case inner: (Inl e')
      with Inl fields f2 show ?thesis
        by (intro both_failed[of e s1 h1 e' s3 h4]) (simp_all add: send_with_retry_def Let_def)
    qed
  qed
qed

subsection \<open>Token responses\<close>

lemma int_add_isl: "isl (int_add n v) = isl (int_add 0 v)"
  by (cases v) simp_all

lemma store_tokens_complete:
  assumes "complete_body data"
  shows "\<exists>s'. store_tokens w data s h = (Inr (), s', h @ [ReadClock]) \<and> same_config s s'
            \<and> subscript data ''access_token'' = Inr (access_token s')"
proof -
  from assms obtain a rt v where
    f: "subscript data ''access_token'' = Inr a" "subscript data ''refresh_token'' = Inr rt"
       "dict_get data ''expires_in'' (JInt 3600) = Inr v" "\<not> isl (int_add 0 v)"
    by (auto simp: complete_body_def split: sum.splits)
  from f(4) have "\<not> isl (int_add (clock w h) v)" using int_add_isl by blast
  then obtain t where "int_add (clock w h) v = Inr t" by (cases "int_add (clock w h) v") auto
  with f show ?thesis
    by (simp add: store_tokens_def Let_def same_config_def)
qed

lemma authenticate_grants:
  assumes "grants (respond w h (auth_request s))"
  shows "\<exists>s'. authenticate w s h = (Inr (), s', h @ [Post (auth_request s), ReadClock, Log INFO Authenticated])
            \<and> same_config s s'"
proof -
  from assms obtain st data where
    r: "respond w h (auth_request s) = Response st (Some data)" "raise_for_status st = Inr ()"
       "complete_body data"
    by (auto simp: grants_def split: http_outcome.splits sum.splits option.splits)
  from store_tokens_complete[OF r(3), of w s "h @ [Post (auth_request s)]"]
  obtain s' where "store_tokens w data s (h @ [Post (auth_request s)]) = (Inr (), s', (h @ [Post (auth_request s)]) @ [ReadClock])"
    "same_config s s'" by blast
  with r show ?thesis
    by (simp add: authenticate_def Let_def read_token_response_def)
qed

lemma authenticate_fails_before_store:
  assumes "fails_before_store (respond w h (auth_request s))"
  shows "\<exists>e h'. authenticate w s h = (Inl e, s, h')"
  using assms
  by (auto simp: fails_before_store_def authenticate_def Let_def read_token_response_def
      store_tokens_def split: http_outcome.splits sum.splits option.splits)

lemma refresh_fails_before_store:
  assumes "fails_before_store (respond w h (refresh_request s))"
  shows "\<exists>e h'. refresh_token_call w s h = (Inl e, s, h')"
  using assms
  by (auto simp: fails_before_store_def refresh_token_call_def Let_def read_token_response_def
      store_tokens_def split: http_outcome.splits sum.splits option.splits)

lemma store_tokens_failed_expiry:
  "store_tokens w d s h = (Inl e, s', h') \<Longrightarrow> expires_at s' = expires_at s"
  by (auto simp: store_tokens_def Let_def split: sum.splits)

lemma read_token_response_failed_expiry:
  "read_token_response w st b s h = (Inl e, s', h') \<Longrightarrow> expires_at s' = expires_at s"
  by (auto simp: read_token_response_def dest: store_tokens_failed_expiry
      split: sum.splits option.splits)

subsection \<open>The token and the history\<close>

lemma token_granted_snoc: "token_granted (h @ [e]) = token_step (token_granted h) e"
  by (simp add: token_granted_def)

lemma token_granted_append_quiet:
  "\<forall>e \<in> set ev. e \<noteq> Log INFO Authenticated \<and> e \<noteq> Log INFO Refreshed_token \<and> e \<noteq> ForceNewToken
   \<Longrightarrow> token_granted (h @ ev) = token_granted h"
proof (induction ev rule: rev_induct)
  case Nil
  then show ?case by simp
next
  case (snoc x xs)
  then have "token_granted ((h @ xs) @ [x]) = token_granted (h @ xs)"
    unfolding token_granted_snoc by (simp add: token_step_def)
  with snoc show ?case by simp
qed

lemma token_call_outcome:
  assumes "all_or_nothing (Response st body)"
    and "read_token_response w st body s h = (r, s', h')"
  shows "(h' = h \<or> h' = h @ [ReadClock])
       \<and> ((\<exists>e. r = Inl e) \<and> s' = s \<or> r = Inr () \<and> access_token s' \<noteq> JNull)"
proof (cases "fails_before_store (Response st body)")
  case True
  with assms(2) show ?thesis
    by (auto simp: fails_before_store_def read_token_response_def store_tokens_def
        raise_for_status_def split: sum.splits option.splits if_splits)
next
  case False
  with assms(1) obtain data where d: "body = Some data" "complete_body data"
    "subscript data ''access_token'' \<noteq> Inr JNull"
    by (auto simp: all_or_nothing_def split: option.splits)
  from False d have st: "raise_for_status st = Inr ()"
    by (auto simp: fails_before_store_def split: sum.splits)
  from store_tokens_complete[OF d(2), of w s h] obtain s2 where
    "store_tokens w data s h = (Inr (), s2, h @ [ReadClock])"
    "subscript data ''access_token'' = Inr (access_token s2)" by blast
  with assms(2) d st show ?thesis
    by (auto simp: read_token_response_def)
qed

lemma authenticate_inv:
  assumes "all_or_nothing (respond w h (auth_request s))"
    and "authenticate w s h = (r, s', h')"
  shows "(\<exists>e. r = Inl e) \<and> s' = s \<and> token_granted h' = token_granted h
       \<or> r = Inr () \<and> access_token s' \<noteq> JNull \<and> token_granted h'"
proof (cases "respond w h (auth_request s)")
  case PostRaised
  with assms(2) have "r = Inl UnboundLocalError" "s' = s"
    "h' = h @ [Post (auth_request s), Log ERROR Authentication_failed]"
    by (auto simp: authenticate_def Let_def)
  moreover have "token_granted (h @ [Post (auth_request s), Log ERROR Authentication_failed]) = token_granted h"
    by (rule token_granted_append_quiet) simp
  ultimately show ?thesis by simp
next
  case (Response st body)
  let ?h1 = "h @ [Post (auth_request s)]"
  obtain r1 s1 h1 where rt: "read_token_response w st body s ?h1 = (r1, s1, h1)"
    by (cases "read_token_response w st body s ?h1") auto
  from token_call_outcome[OF _ rt] assms(1) Response
  have o: "(h1 = ?h1 \<or> h1 = ?h1 @ [ReadClock])"
    "(\<exists>e. r1 = Inl e) \<and> s1 = s \<or> r1 = Inr () \<and> access_token s1 \<noteq> JNull"
    by auto
  have q: "token_granted h1 = token_granted h"
    using o(1) token_granted_append_quiet[of "[Post (auth_request s)]" h]
      token_granted_append_quiet[of "[Post (auth_request s), ReadClock]" h] by auto
  show ?thesis
  proof (cases r1)
    case (Inl e)
    with assms(2) Response rt
    have "r = Inl e" "s' = s1" "h' = h1 @ [Log ERROR Authentication_failed, Log DEBUG Auth_response]"
      by (auto simp: authenticate_def Let_def)
    moreover have "token_granted (h1 @ [Log ERROR Authentication_failed, Log DEBUG Auth_response]) = token_granted h1"
      by (rule token_granted_append_quiet) simp
    ultimately show ?thesis using o(2) Inl q by auto
  next
    case (Inr u)
    with assms(2) Response rt
    have "r = Inr ()" "s' = s1" "h' = h1 @ [Log INFO Authenticated]"
      by (auto simp: authenticate_def Let_def)
    then show ?thesis using o(2) Inr
      by (auto simp: token_granted_snoc token_step_def)
  qed
qed

lemma refresh_inv:
  assumes "all_or_nothing (respond w h (refresh_request s))"
    and "refresh_token_call w s h = (r, s', h')"
  shows "(\<exists>e. r = Inl e) \<and> s' = s \<and> token_granted h' = token_granted h
       \<or> r = Inr () \<and> access_token s' \<noteq> JNull \<and> token_granted h'"
proof (cases "respond w h (refresh_request s)")
  case PostRaised
  with assms(2) have "r = Inl UnboundLocalError" "s' = s"
    "h' = h @ [Post (refresh_request s), Log ERROR Refresh_failed]"
    by (auto simp: refresh_token_call_def Let_def)
  moreover have "token_granted (h @ [Post (refresh_request s), Log ERROR Refresh_failed]) = token_granted h"
    by (rule token_granted_append_quiet) simp
  ultimately show ?thesis by simp
next
  case (Response st body)
  let ?h1 = "h @ [Post (refresh_request s)]"
  obtain r1 s1 h1 where rt: "read_token_response w st body s ?h1 = (r1, s1, h1)"
    by (cases "read_token_response w st body s ?h1") auto
  from token_call_outcome[OF _ rt] assms(1) Response
  have o: "(h1 = ?h1 \<or> h1 = ?h1 @ [ReadClock])"
    "(\<exists>e. r1 = Inl e) \<and> s1 = s \<or> r1 = Inr () \<and> access_token s1 \<noteq> JNull"
    by auto
  have q: "token_granted h1 = token_granted h"
    using o(1) token_granted_append_quiet[of "[Post (refresh_request s)]" h]
      token_granted_append_quiet[of "[Post (refresh_request s), ReadClock]" h] by auto
  show ?thesis
  proof (cases r1)
    case (Inl e)
    with assms(2) Response rt
    have "r = Inl e" "s' = s1" "h' = h1 @ [Log ERROR Refresh_failed, Log DEBUG Refresh_response]"
      by (auto simp: refresh_token_call_def Let_def)
    moreover have "token_granted (h1 @ [Log ERROR Refresh_failed, Log DEBUG Refresh_response]) = token_granted h1"
      by (rule token_granted_append_quiet) simp
    ultimately show ?thesis using o(2) Inl q by auto
  next
    case (Inr u)
    with assms(2) Response rt
    have "r = Inr ()" "s' = s1" "h' = h1 @ [Log INFO Refreshed_token]"
      by (auto simp: refresh_token_call_def Let_def)
    then show ?thesis using o(2) Inr
      by (auto simp: token_granted_snoc token_step_def)
  qed
qed

lemma token_inv_quiet:
  assumes "token_inv (s, h)"
    and "\<forall>e \<in> set ev. e \<noteq> Log INFO Authenticated \<and> e \<noteq> Log INFO Refreshed_token \<and> e \<noteq> ForceNewToken"
  shows "token_inv (s, h @ ev)"
  using assms token_granted_append_quiet[OF assms(2), of h] by (simp add: token_inv_def)

lemma authenticate_token_inv:
  assumes "all_or_nothing (respond w h (auth_request s))"
    and "token_inv (s, h)" and "authenticate w s h = (r, s', h')"
  shows "token_inv (s', h')"
  using authenticate_inv[OF assms(1,3)] assms(2) by (auto simp: token_inv_def)

lemma refresh_token_inv:
  assumes "all_or_nothing (respond w h (refresh_request s))"
    and "token_inv (s, h)" and "refresh_token_call w s h = (r, s', h')"
  shows "token_inv (s', h')"
  using refresh_inv[OF assms(1,3)] assms(2) by (auto simp: token_inv_def)

lemma authenticate_and_return_token_inv:
  assumes "all_or_nothing (respond w h (auth_request s))"
    and "token_inv (s, h)" and "authenticate_and_return w s h = (r, s', h')"
  shows "token_inv (s', h')"
proof -
  from assms(3) obtain r0 where "authenticate w s h = (r0, s', h')"
    by (auto simp: authenticate_and_return_def split: prod.splits sum.splits)
  from authenticate_token_inv[OF assms(1,2) this] show ?thesis .
qed

lemma get_valid_token_token_inv:
  assumes wb: "\<And>h req. is_auth req \<or> is_refresh req \<Longrightarrow> all_or_nothing (respond w h req)"
    and inv: "token_inv (s, h)" and gv: "get_valid_token w s h = (r, s', h')"
  shows "token_inv (s', h')"
proof -
  have A: "all_or_nothing (respond w hh (auth_request ss))" for hh ss
    by (rule wb) (simp add: auth_request_def)
  have R: "all_or_nothing (respond w hh (refresh_request ss))" for hh ss
    by (rule wb) (simp add: refresh_request_def)
  show ?thesis
  proof (cases "truthy (access_token s)")
    case False
    with gv have "authenticate_and_return w s h = (r, s', h')"
      by (simp add: get_valid_token_def)
    from authenticate_and_return_token_inv[OF A inv this] show ?thesis .
  next
    case tok: True
    let ?h1 = "h @ [ReadClock]"
    have inv1: "token_inv (s, ?h1)" by (rule token_inv_quiet[OF inv]) simp
    show ?thesis
    proof (cases "truthy_int (expires_at s) \<and> clock w h \<ge> the (expires_at s)")
      case False
      with tok gv have "s' = s \<and> h' = ?h1"
        by (auto simp: get_valid_token_def Let_def)
      with inv1 show ?thesis by simp
    next
      case exp: True
      show ?thesis
      proof (cases "truthy (refresh_token s)")
        case False
        with tok exp gv have "authenticate_and_return w s ?h1 = (r, s', h')"
          by (simp add: get_valid_token_def Let_def)
        from authenticate_and_return_token_inv[OF A inv1 this] show ?thesis .
      next
        case rt: True
        obtain rr s1 h1 where f: "refresh_token_call w s ?h1 = (rr, s1, h1)"
          by (cases "refresh_token_call w s ?h1") auto
        from refresh_token_inv[OF R inv1 f] have inv2: "token_inv (s1, h1)" .
        show ?thesis
        proof (cases rr)
          case (Inr u)
          with tok exp rt f gv have "s' = s1 \<and> h' = h1"
            by (simp add: get_valid_token_def Let_def)
          with inv2 show ?thesis by simp
        next
          case (Inl err)
          with tok exp rt f gv
          have ar: "authenticate_and_return w s1 (h1 @ [Log WARNING Refresh_failed_falling_back]) = (r, s', h')"
            by (simp add: get_valid_token_def Let_def)
          have "token_inv (s1, h1 @ [Log WARNING Refresh_failed_falling_back])"
            by (rule token_inv_quiet[OF inv2]) simp
          from authenticate_and_return_token_inv[OF A this ar] show ?thesis .
        qed
      qed
    qed
  qed
qed

lemma insert_log_token_inv:
  assumes wb: "\<And>h req. is_auth req \<or> is_refresh req \<Longrightarrow> all_or_nothing (respond w h req)"
    and inv: "token_inv (s, h)" and il: "insert_log w entry s h = (r, s', h')"
  shows "token_inv (s', h')"
  using il
proof (cases rule: insert_log_cases)
  case (token_failed e)
  from get_valid_token_token_inv[OF wb inv token_failed(1)] show ?thesis by simp
next
  case (post_failed tok h1 e)
  from get_valid_token_token_inv[OF wb inv post_failed(1)] have "token_inv (s', h1)" by simp
  then have "token_inv (s', h1 @ [Post (InsertLog (url s') (api_key s') tok entry)])"
    by (rule token_inv_quiet) simp
  with post_failed(2) show ?thesis by simp
next
  case (ok tok h1)
  from get_valid_token_token_inv[OF wb inv ok(1)] have "token_inv (s', h1)" by simp
  then have "token_inv (s', h1 @ [Post (InsertLog (url s') (api_key s') tok entry), Log INFO Logged_bot_response])"
    by (rule token_inv_quiet) simp
  with ok(2) show ?thesis by simp
qed

lemma send_with_retry_token_inv:
  assumes wb: "\<And>h req. is_auth req \<or> is_refresh req \<Longrightarrow> all_or_nothing (respond w h req)"
    and inv: "token_inv (s, h)" and sw: "send_with_retry w entry s h = (r, s', h')"
  shows "token_inv (s', h')"
proof -
  have forced: "token_inv (s1\<lparr>access_token := JNull\<rparr>, h1 @ [Log INFO Insert_failed_new_token, ForceNewToken])"
    for s1 h1
    using token_granted_snoc[of "h1 @ [Log INFO Insert_failed_new_token]" ForceNewToken]
    by (simp add: token_inv_def token_step_def)
  show ?thesis
  proof (cases rule: send_with_retry_cases[of w entry s h])
    case (first_ok s1 h1)
    from insert_log_token_inv[OF wb inv first_ok(1)] first_ok(2) sw show ?thesis by simp
  next
    case (retry_ok e s1 h1 s3 h4)
    from insert_log_token_inv[OF wb forced retry_ok(2)] retry_ok(3) sw show ?thesis by simp
  next
    case (both_failed e s1 h1 e' s3 h4)
    from insert_log_token_inv[OF wb forced both_failed(2)] have "token_inv (s3, h4)" .
    then have "token_inv (s3, h4 @ [Log ERROR Failed_after_token_refresh, Log DEBUG Failed_log_entry])"
      by (rule token_inv_quiet) simp
    with both_failed(3) sw show ?thesis by simp
  qed
qed

lemma log_success_token_inv:
  assumes wb: "\<And>h req. is_auth req \<or> is_refresh req \<Longrightarrow> all_or_nothing (respond w h req)"
    and inv: "token_inv (s, h)" and ls: "log_success w a s h = (r, s', h')"
  shows "token_inv (s', h')"
proof (cases "build_entry w a h")
  case (Pair rb h0)
  then have "h0 = h @ [ReadClock]" by (rule build_entry_history)
  then have inv0: "token_inv (s, h0)" using token_inv_quiet[OF inv, of "[ReadClock]"] by simp
  show ?thesis
  proof (cases rb)
    case (Inl e)
    with Pair ls inv0 show ?thesis by (simp add: log_success_def)
  next
    case (Inr entry)
    with Pair ls have "send_with_retry w entry s h0 = (r, s', h')"
      by (simp add: log_success_def)
    from send_with_retry_token_inv[OF wb inv0 this] show ?thesis .
  qed
qed

lemma apply_operation_token_inv:
  assumes wb: "\<And>h req. is_auth req \<or> is_refresh req \<Longrightarrow> all_or_nothing (respond w h req)"
    and inv: "token_inv c"
  shows "token_inv (apply_operation w c op)"
proof -
  obtain s h where c: "c = (s, h)" by (cases c)
  have A: "all_or_nothing (respond w h (auth_request s))"
    by (rule wb) (simp add: auth_request_def)
  have R: "all_or_nothing (respond w h (refresh_request s))"
    by (rule wb) (simp add: refresh_request_def)
  show ?thesis
  proof (cases op)
    case (Call_log_success a)
    obtain r s' h' where "log_success w a s h = (r, s', h')" by (cases "log_success w a s h") auto
    with log_success_token_inv[OF wb inv[unfolded c] this] c Call_log_success show ?thesis by simp
  next
    case Call_get_valid_token
    obtain r s' h' where "get_valid_token w s h = (r, s', h')" by (cases "get_valid_token w s h") auto
    with get_valid_token_token_inv[OF wb inv[unfolded c] this] c Call_get_valid_token show ?thesis by simp
  next
    case Call_refresh_token
    obtain r s' h' where "refresh_token_call w s h = (r, s', h')" by (cases "refresh_token_call w s h") auto
    with refresh_token_inv[OF R inv[unfolded c] this] c Call_refresh_token show ?thesis by simp
  next
    case Call_authenticate
    obtain r s' h' where "authenticate w s h = (r, s', h')" by (cases "authenticate w s h") auto
    with authenticate_token_inv[OF A inv[unfolded c] this] c Call_authenticate show ?thesis by simp
  next
    case (Call_insert_log entry)
    obtain r s' h' where "insert_log w entry s h = (r, s', h')" by (cases "insert_log w entry s h") auto
    with insert_log_token_inv[OF wb inv[unfolded c] this] c Call_insert_log show ?thesis by simp
  qed
qed

subsection \<open>Evaluating the concrete worlds\<close>

lemmas run_defs =
  log_success_def send_with_retry_def build_entry_def insert_log_def get_valid_token_def
  authenticate_and_return_def authenticate_def refresh_token_call_def read_token_response_def
  store_tokens_def raise_for_status_def auth_request_def refresh_request_def datetime_sub_def
  init_def Let_def

lemmas demo_defs =
  demo_logger_def demo_env_def demo_respond_def token_body_def demo_args_def mixed_args_def
  demo_entry_def down_env_def partial_env_def partial_respond_def held_logger_def
  empty_token_logger_def empty_refresh_logger_def
  naive_at_def aware_at_def

lemmas count_defs = auth_calls_def refresh_calls_def insert_calls_def invalidations_def

lemma demo_build: "build_entry demo_env demo_args [] = (Inr demo_entry, [ReadClock])"
  by (simp add: run_defs demo_defs)

lemma demo_first_attempt:
  "insert_log demo_env demo_entry demo_logger [ReadClock]
     = (Inl (HTTPError 401),
        demo_logger\<lparr>access_token := JStr ''t1'', refresh_token := JStr ''r-t1'', expires_at := Some 4600\<rparr>,
        [ReadClock, Post (auth_request demo_logger), ReadClock, Log INFO Authenticated,
         Post (InsertLog (url demo_logger) (api_key demo_logger) (JStr ''t1'') demo_entry)])"
  by (simp add: run_defs demo_defs count_defs)

lemma demo_log_success:
  "log_success demo_env demo_args demo_logger []
     = (Inr (),
        demo_logger\<lparr>access_token := JStr ''t2'', refresh_token := JStr ''r-t2'', expires_at := Some 4600\<rparr>,
        [ReadClock,
         Post (auth_request demo_logger), ReadClock, Log INFO Authenticated,
         Post (InsertLog (url demo_logger) (api_key demo_logger) (JStr ''t1'') demo_entry),
         Log INFO Insert_failed_new_token, ForceNewToken,
         Post (auth_request demo_logger), ReadClock, Log INFO Authenticated,
         Post (InsertLog (url demo_logger) (api_key demo_logger) (JStr ''t2'') demo_entry),
         Log INFO Logged_bot_response])"
  by (simp add: run_defs demo_defs count_defs)

lemma demo_env_all_or_nothing:
  "\<forall>h req. is_auth req \<or> is_refresh req \<longrightarrow> all_or_nothing (respond demo_env h req)"
proof (intro allI impI)
  fix h req
  assume "is_auth req \<or> is_refresh req"
  then show "all_or_nothing (respond demo_env h req)"
    by (cases req)
       (simp_all add: all_or_nothing_def fails_before_store_def complete_body_def
          raise_for_status_def demo_defs)
qed

lemma demo_env_grants: "\<forall>h. grants (respond demo_env h (auth_request (init u k e p)))"
  by (simp add: grants_def complete_body_def raise_for_status_def auth_request_def init_def demo_defs)

lemma demo_env_inserts:
  "\<forall>h req. is_insert req \<longrightarrow>
     (\<exists>b. respond demo_env h req = Response (if insert_calls h = 0 then 401 else 200) b)"
proof (intro allI impI)
  fix h req
  assume "is_insert req"
  then show "\<exists>b. respond demo_env h req = Response (if insert_calls h = 0 then 401 else 200) b"
    by (cases req) (simp_all add: demo_defs)
qed

lemma demo_args_comparable: "aware (arg_request_time demo_args) = aware (arg_response_time demo_args)"
  by (simp add: demo_defs)

section \<open>The claims\<close>

subsection \<open>C1: \<open>log_success\<close> and exceptions\<close>

text \<open>
  Once the entry is built, the two nested \<open>try\<close> blocks of lines 182 to 197 let nothing
  out: for every behaviour of the server and the clock \<open>log_success\<close> returns normally,
  and when both insert attempts fail the call ends with the two messages of lines 195
  and 197, in the state the second attempt left.
\<close>

lemma log_success_swallows_insert_failures:
  assumes "aware (arg_request_time a) = aware (arg_response_time a)"
  shows "\<exists>s' h'. log_success w a s h = (Inr (), s', h')
       \<and> (\<forall>entry h0 e1 s1 h1 e2 s3 h4.
            build_entry w a h = (Inr entry, h0)
          \<and> insert_log w entry s h0 = (Inl e1, s1, h1)
          \<and> insert_log w entry (s1\<lparr>access_token := JNull\<rparr>)
               (h1 @ [Log INFO Insert_failed_new_token, ForceNewToken]) = (Inl e2, s3, h4)
          \<longrightarrow> s' = s3
            \<and> h' = h4 @ [Log ERROR Failed_after_token_refresh, Log DEBUG Failed_log_entry])"
proof -
  from build_entry_ok[OF assms] obtain entry where
    b: "build_entry w a h = (Inr entry, h @ [ReadClock])" by blast
  then have ls: "log_success w a s h = send_with_retry w entry s (h @ [ReadClock])"
    by (simp add: log_success_def)
  show ?thesis
  proof (cases rule: send_with_retry_cases[of w entry s "h @ [ReadClock]"])
    case (first_ok s1 h1)
    with ls b show ?thesis by auto
  next
    case (retry_ok e s1 h1 s3 h4)
    with ls b show ?thesis by auto
  next
    case (both_failed e s1 h1 e' s3 h4)
    with ls b show ?thesis by auto
  qed
qed

lemma log_success_swallows_insert_failures_example:
  "aware (arg_request_time demo_args) = aware (arg_response_time demo_args)
   \<and> log_success down_env demo_args demo_logger []
     = (Inr (), demo_logger,
        [ReadClock,
         Post (auth_request demo_logger), Log ERROR Authentication_failed,
         Log INFO Insert_failed_new_token, ForceNewToken,
         Post (auth_request demo_logger), Log ERROR Authentication_failed,
         Log ERROR Failed_after_token_refresh, Log DEBUG Failed_log_entry])"
  using log_success_swallows_insert_failures [of demo_args down_env demo_logger "[]"]
  by (simp add: run_defs demo_defs)

text \<open>
  Claim C1: for every input and every outcome of the HTTP calls, \<open>log_success\<close> returns
  normally and lets no exception reach its caller (the comment of line 194 says the
  same). The code does not keep this for every input: the entry is built before the
  first \<open>try\<close>, and with a naive request time and an aware response time the
  subtraction of line 178 raises \<open>TypeError\<close>. At this input \<open>log_success\<close> ends with
  that exception, after reading the clock once and with no request sent.
\<close>

theorem log_success_mixed_datetimes:
  "log_success demo_env mixed_args demo_logger [] = (Inl TypeError, demo_logger, [ReadClock])"
  by (simp add: run_defs demo_defs)

subsection \<open>C2: a failed token call and the credential fields\<close>

text \<open>
  The three fields are assigned one after the other, so a body with an access token and
  no refresh token makes \<open>_authenticate\<close> fail with \<open>KeyError\<close> after
  \<open>access_token\<close> has been overwritten.
\<close>

theorem authenticate_partial_update:
  "authenticate partial_env demo_logger []
     = (Inl (KeyError ''refresh_token''), demo_logger\<lparr>access_token := JStr ''t1''\<rparr>,
        [Post (auth_request demo_logger), Log ERROR Authentication_failed, Log DEBUG Auth_response])
   \<and> access_token (demo_logger\<lparr>access_token := JStr ''t1''\<rparr>) \<noteq> access_token demo_logger"
  by (simp add: run_defs demo_defs)

text \<open>
  Claim C2, as amended. Whenever \<open>_authenticate\<close> or \<open>_refresh_token\<close> fails,
  \<open>expires_at\<close> is left as it was; and when the failure comes before the first
  assignment (no response, a status from 400 to 599, a body that is not JSON, or a body
  from which \<open>access_token\<close> cannot be read), the whole object is left as it was.
\<close>

theorem failed_token_call_frame:
  "(\<forall>e s' h'. authenticate w s h = (Inl e, s', h') \<longrightarrow>
       expires_at s' = expires_at s
     \<and> (fails_before_store (respond w h (auth_request s)) \<longrightarrow> s' = s))
 \<and> (\<forall>e s' h'. refresh_token_call w s h = (Inl e, s', h') \<longrightarrow>
       expires_at s' = expires_at s
     \<and> (fails_before_store (respond w h (refresh_request s)) \<longrightarrow> s' = s))"
proof -
  have a: "expires_at s' = expires_at s" if "authenticate w s h = (Inl e, s', h')" for e s' h'
    using that
    by (auto simp: authenticate_def Let_def dest: read_token_response_failed_expiry
        split: http_outcome.splits prod.splits sum.splits)
  have b: "expires_at s' = expires_at s" if "refresh_token_call w s h = (Inl e, s', h')" for e s' h'
    using that
    by (auto simp: refresh_token_call_def Let_def dest: read_token_response_failed_expiry
        split: http_outcome.splits prod.splits sum.splits)
  have c: "s' = s" if "authenticate w s h = (Inl e, s', h')"
    "fails_before_store (respond w h (auth_request s))" for e s' h'
    using that authenticate_fails_before_store[OF that(2)] by auto
  have d: "s' = s" if "refresh_token_call w s h = (Inl e, s', h')"
    "fails_before_store (respond w h (refresh_request s))" for e s' h'
    using that refresh_fails_before_store[OF that(2)] by auto
  from a b c d show ?thesis by blast
qed

theorem failed_token_call_frame_witness:
  "fails_before_store (respond down_env [] (auth_request demo_logger))
   \<and> authenticate down_env demo_logger []
       = (Inl UnboundLocalError, demo_logger,
          [Post (auth_request demo_logger), Log ERROR Authentication_failed])
   \<and> fails_before_store (respond demo_env [] (refresh_request (held_logger (Some 500))))
   \<and> refresh_token_call demo_env (held_logger (Some 500)) []
       = (Inl (HTTPError 400), held_logger (Some 500),
          [Post (refresh_request (held_logger (Some 500))),
           Log ERROR Refresh_failed, Log DEBUG Refresh_response])"
  using failed_token_call_frame [of down_env demo_logger "[]"]
    failed_token_call_frame [of demo_env "held_logger (Some 500)" "[]"]
  by (simp add: run_defs demo_defs fails_before_store_def)

subsection \<open>C3: when the access token is absent\<close>

text \<open>
  With the server of \<open>partial_env\<close> one call of \<open>log_success\<close> ends in a state whose
  access token is \<open>t1\<close>, although no authentication has succeeded and the last thing
  that happened to the token is the invalidation of line 190.
\<close>

theorem token_present_without_grant:
  "run partial_env demo_logger [Call_log_success demo_args]
     = (demo_logger\<lparr>access_token := JStr ''t1''\<rparr>,
        [ReadClock,
         Post (auth_request demo_logger), Log ERROR Authentication_failed, Log DEBUG Auth_response,
         Log INFO Insert_failed_new_token, ForceNewToken,
         Post (auth_request demo_logger), Log ERROR Authentication_failed, Log DEBUG Auth_response,
         Log ERROR Failed_after_token_refresh, Log DEBUG Failed_log_entry])
   \<and> access_token (fst (run partial_env demo_logger [Call_log_success demo_args])) \<noteq> JNull
   \<and> \<not> token_granted (snd (run partial_env demo_logger [Call_log_success demo_args]))"
  by (simp add: run_def run_defs demo_defs token_granted_def token_step_def)

text \<open>
  Claim C3, as amended. Provided every response to a password or refresh request either
  fails before the first assignment or is complete and carries an access token other
  than \<open>None\<close>: after any sequence of calls of the methods on a newly constructed
  logger, \<open>access_token\<close> is \<open>None\<close> exactly when no \<open>_authenticate\<close> or
  \<open>_refresh_token\<close> has succeeded since the construction or since the last
  invalidation by \<open>log_success\<close>.
\<close>

theorem token_invariant:
  assumes "\<forall>h req. is_auth req \<or> is_refresh req \<longrightarrow> all_or_nothing (respond w h req)"
  shows "(access_token (fst (run w (init u k e p) ops)) = JNull)
       = (\<not> token_granted (snd (run w (init u k e p) ops)))"
proof -
  have wb: "\<And>h req. is_auth req \<or> is_refresh req \<Longrightarrow> all_or_nothing (respond w h req)"
    using assms by blast
  have "token_inv (foldl (apply_operation w) c ops)" if "token_inv c" for c
    using that
  proof (induction ops arbitrary: c)
    case Nil
    then show ?case by simp
  next
    case (Cons op ops)
    from apply_operation_token_inv[OF wb Cons.prems] Cons.IH show ?case by simp
  qed
  moreover have "token_inv (init u k e p, [])"
    by (simp add: token_inv_def init_def token_granted_def)
  ultimately have "token_inv (run w (init u k e p) ops)"
    by (simp add: run_def)
  then show ?thesis by (simp add: token_inv_def)
qed

theorem token_invariant_witness:
  "access_token (fst (run demo_env demo_logger [Call_log_success demo_args])) = JStr ''t2''
   \<and> token_granted (snd (run demo_env demo_logger [Call_log_success demo_args]))"
  using token_invariant [OF demo_env_all_or_nothing,
      of "Some ''https://db.example''" "Some ''anon-key''" "Some ''bot@example.com''"
         "Some ''secret''" "[Call_log_success demo_args]"]
    demo_log_success
  by (simp add: run_def demo_logger_def)

subsection \<open>C4: no token stored\<close>

text \<open>
  Claim C4. When \<open>access_token\<close> is \<open>None\<close>, \<open>_get_valid_token\<close> sends exactly one
  request, the password grant, and no refresh request. When it returns a token, that
  token is the \<open>access_token\<close> of the response body and is now stored, together with the
  body's refresh token and the expiry computed from the clock and \<open>expires_in\<close>.
\<close>

theorem get_valid_token_no_token:
  assumes "access_token s = JNull" and "get_valid_token w s h = (r, s', h')"
  shows "posts h' = posts h @ [auth_request s]
       \<and> auth_calls h' = auth_calls h + 1
       \<and> refresh_calls h' = refresh_calls h
       \<and> (\<forall>t. r = Inr t \<longrightarrow>
            (\<exists>st data rt v e.
               respond w h (auth_request s) = Response st (Some data)
             \<and> subscript data ''access_token'' = Inr t
             \<and> subscript data ''refresh_token'' = Inr rt
             \<and> dict_get data ''expires_in'' (JInt 3600) = Inr v
             \<and> int_add (clock w (h @ [Post (auth_request s)])) v = Inr e
             \<and> access_token s' = t \<and> refresh_token s' = rt \<and> expires_at s' = Some e))"
proof -
  from assms have ar: "authenticate_and_return w s h = (r, s', h')"
    by (simp add: get_valid_token_def)
  from authenticate_and_return_effects(1)[OF ar]
  have p: "posts h' = posts h @ [auth_request s]"
    by (auto simp: posts_append)
  have c: "auth_calls h' = auth_calls h + 1 \<and> refresh_calls h' = refresh_calls h"
    by (simp add: auth_calls_def refresh_calls_def p auth_request_def)
  have d: "\<forall>t. r = Inr t \<longrightarrow>
            (\<exists>st data rt v e.
               respond w h (auth_request s) = Response st (Some data)
             \<and> subscript data ''access_token'' = Inr t
             \<and> subscript data ''refresh_token'' = Inr rt
             \<and> dict_get data ''expires_in'' (JInt 3600) = Inr v
             \<and> int_add (clock w (h @ [Post (auth_request s)])) v = Inr e
             \<and> access_token s' = t \<and> refresh_token s' = rt \<and> expires_at s' = Some e)"
    using ar
    by (auto simp: authenticate_and_return_def authenticate_def read_token_response_def
        store_tokens_def Let_def
        split: sum.splits prod.splits http_outcome.splits option.splits)
  from p c d show ?thesis by blast
qed

theorem get_valid_token_no_token_witness:
  "access_token demo_logger = JNull
   \<and> fst (get_valid_token demo_env demo_logger []) = Inr (JStr ''t1'')
   \<and> posts (snd (snd (get_valid_token demo_env demo_logger []))) = [auth_request demo_logger]
   \<and> access_token (fst (snd (get_valid_token demo_env demo_logger []))) = JStr ''t1''
   \<and> expires_at (fst (snd (get_valid_token demo_env demo_logger []))) = Some 4600"
  using get_valid_token_no_token [of demo_logger demo_env "[]"
      "fst (get_valid_token demo_env demo_logger [])"
      "fst (snd (get_valid_token demo_env demo_logger []))"
      "snd (snd (get_valid_token demo_env demo_logger []))"]
  by (simp add: demo_logger_def init_def demo_env_def demo_respond_def token_body_def
      get_valid_token_def authenticate_and_return_def authenticate_def auth_request_def
      read_token_response_def raise_for_status_def store_tokens_def Let_def auth_calls_def)

subsection \<open>C5: a token that has not expired\<close>

text \<open>
  The test of line 52 is the truth value of \<open>self.access_token\<close>: a stored empty string
  counts as no token. With the empty string as access token and an expiry that has not
  been reached, \<open>_get_valid_token\<close> sends a password request and overwrites all three
  fields.
\<close>

theorem get_valid_token_empty_token:
  "access_token (empty_token_logger (Some 2000)) = JStr []
   \<and> expires_at (empty_token_logger (Some 2000)) = Some 2000
   \<and> clock demo_env [] < 2000
   \<and> get_valid_token demo_env (empty_token_logger (Some 2000)) []
       = (Inr (JStr ''t1''),
          demo_logger\<lparr>access_token := JStr ''t1'', refresh_token := JStr ''r-t1'',
            expires_at := Some 4600\<rparr>,
          [Post (auth_request demo_logger), ReadClock, Log INFO Authenticated])"
  by (simp add: run_defs demo_defs count_defs)

text \<open>
  Claim C5, as amended. When \<open>access_token\<close> is true in Python's sense (it passes the
  test of line 52: it is not \<open>None\<close> and not an empty or zero value) and the clock shows
  less than \<open>expires_at\<close>, \<open>_get_valid_token\<close> returns the stored token, leaves the
  object as it is, and sends no request: it reads the clock and nothing else.
\<close>

theorem get_valid_token_not_expired:
  assumes "truthy (access_token s)" and "expires_at s = Some e" and "clock w h < e"
  shows "get_valid_token w s h = (Inr (access_token s), s, h @ [ReadClock])
       \<and> posts (h @ [ReadClock]) = posts h"
  using assms by (simp add: get_valid_token_def Let_def posts_append)

theorem get_valid_token_not_expired_witness:
  "truthy (access_token (held_logger (Some 2000)))
   \<and> expires_at (held_logger (Some 2000)) = Some 2000
   \<and> clock demo_env [] < 2000
   \<and> get_valid_token demo_env (held_logger (Some 2000)) []
       = (Inr (JStr ''t0''), held_logger (Some 2000), [ReadClock])"
  using get_valid_token_not_expired [of "held_logger (Some 2000)" 2000 demo_env "[]"]
  by (simp add: demo_defs)

subsection \<open>C6: an expired token and a refresh token\<close>

text \<open>
  The tests of lines 52 and 58 are truth values, and 0 and the empty string are false.
  A logger with a token, a refresh token and the expiry 0 returns the stored token at
  any later time, with no refresh request. A logger whose stored refresh token, or whose
  stored access token, is the empty string sends the password request when the expiry
  has been reached, and no refresh request.
\<close>

theorem get_valid_token_zero_expiry:
  "truthy (access_token (held_logger (Some 0)))
   \<and> truthy (refresh_token (held_logger (Some 0)))
   \<and> expires_at (held_logger (Some 0)) = Some 0
   \<and> clock demo_env [] \<ge> 0
   \<and> get_valid_token demo_env (held_logger (Some 0)) []
       = (Inr (JStr ''t0''), held_logger (Some 0), [ReadClock])
   \<and> refresh_calls (snd (snd (get_valid_token demo_env (held_logger (Some 0)) []))) = 0
   \<and> refresh_token (empty_refresh_logger (Some 500)) = JStr []
   \<and> posts (snd (snd (get_valid_token demo_env (empty_refresh_logger (Some 500)) [])))
       = [auth_request demo_logger]
   \<and> access_token (empty_token_logger (Some 500)) = JStr []
   \<and> posts (snd (snd (get_valid_token demo_env (empty_token_logger (Some 500)) [])))
       = [auth_request demo_logger]"
  by (simp add: run_defs demo_defs count_defs)

text \<open>
  Claim C6, as amended. When \<open>access_token\<close> and \<open>refresh_token\<close> are both true in
  Python's sense (each passes the truth test of lines 52 and 58: it is not \<open>None\<close> and
  not an empty or zero value), \<open>expires_at\<close> is an integer other than 0, and the clock
  has reached it, \<open>_get_valid_token\<close> sends exactly one refresh request. If the refresh
  succeeds nothing else is sent; if it fails, exactly one password request follows, and
  no second refresh.
\<close>

theorem get_valid_token_expired_refresh:
  assumes "truthy (access_token s)" and "expires_at s = Some e" and "e \<noteq> 0"
    and "e \<le> clock w h" and "truthy (refresh_token s)"
    and "get_valid_token w s h = (r, s', h')"
  shows "refresh_calls h' = refresh_calls h + 1
       \<and> (case fst (refresh_token_call w s (h @ [ReadClock])) of
            Inr _ \<Rightarrow> posts h' = posts h @ [refresh_request s] \<and> auth_calls h' = auth_calls h
          | Inl _ \<Rightarrow> posts h' = posts h @ [refresh_request s, auth_request s]
                     \<and> auth_calls h' = auth_calls h + 1)"
proof (cases "refresh_token_call w s (h @ [ReadClock])")
  case (fields rr s1 h1)
  from refresh_effects[OF fields]
  obtain ev where ev: "h1 = (h @ [ReadClock]) @ ev" "posts ev = [refresh_request s]" and sc: "same_config s s1"
    by blast
  have ph1: "posts h1 = posts h @ [refresh_request s]"
    using ev by (simp add: posts_append)
  show ?thesis
  proof (cases rr)
    case (Inr u)
    with assms fields have "h' = h1"
      by (simp add: get_valid_token_def Let_def)
    with Inr fields ph1 show ?thesis
      by (simp add: refresh_calls_def auth_calls_def refresh_request_def)
  next
    case (Inl err)
    with assms fields
    have ar: "authenticate_and_return w s1 (h1 @ [Log WARNING Refresh_failed_falling_back]) = (r, s', h')"
      by (simp add: get_valid_token_def Let_def)
    from authenticate_and_return_effects(1)[OF ar] same_config_auth_request[OF sc]
    have "posts h' = posts h1 @ [auth_request s]"
      by (auto simp: posts_append)
    with Inl fields ph1 show ?thesis
      by (simp add: refresh_calls_def auth_calls_def refresh_request_def auth_request_def)
  qed
qed

theorem get_valid_token_expired_refresh_witness:
  "truthy (access_token (held_logger (Some 500)))
   \<and> expires_at (held_logger (Some 500)) = Some 500
   \<and> 500 \<le> clock demo_env []
   \<and> truthy (refresh_token (held_logger (Some 500)))
   \<and> fst (refresh_token_call demo_env (held_logger (Some 500)) [ReadClock]) = Inl (HTTPError 400)
   \<and> posts (snd (snd (get_valid_token demo_env (held_logger (Some 500)) [])))
       = [refresh_request (held_logger (Some 500)), auth_request (held_logger (Some 500))]
   \<and> refresh_calls (snd (snd (get_valid_token demo_env (held_logger (Some 500)) []))) = 1
   \<and> auth_calls (snd (snd (get_valid_token demo_env (held_logger (Some 500)) []))) = 1"
  using get_valid_token_expired_refresh [of "held_logger (Some 500)" 500 demo_env "[]"
      "fst (get_valid_token demo_env (held_logger (Some 500)) [])"
      "fst (snd (get_valid_token demo_env (held_logger (Some 500)) []))"
      "snd (snd (get_valid_token demo_env (held_logger (Some 500)) []))"]
  by (simp add: run_defs demo_defs count_defs)

subsection \<open>C7: at most two insert attempts, one invalidation between them\<close>

text \<open>
  Claim C7. One call of \<open>log_success\<close> sends at most two insert requests and invalidates
  the token at most once. When the first attempt succeeds, the call ends in the state and
  history of that attempt: one insert request, no invalidation. When the first attempt
  fails (with at most one insert request sent), the message of line 188 is logged, the
  token is invalidated once, and \<open>_insert_log\<close> runs once more, from the state the first
  attempt left with \<open>access_token\<close> set to \<open>None\<close>: this retry starts with a password
  request, sends at most one insert request, and invalidates nothing; the call ends in
  the state the retry left, and in its history, followed by the messages of lines 195
  and 197 when the retry failed too.
\<close>

theorem log_success_insert_attempts:
  assumes "log_success w a s h = (r, s', h')"
  shows "insert_calls h' \<le> insert_calls h + 2
       \<and> invalidations h' \<le> invalidations h + 1
       \<and> (\<forall>entry h0 u s1 h1.
            build_entry w a h = (Inr entry, h0) \<and> insert_log w entry s h0 = (Inr u, s1, h1) \<longrightarrow>
            s' = s1 \<and> h' = h1 \<and> invalidations h' = invalidations h
            \<and> insert_calls h' = insert_calls h + 1)
       \<and> (\<forall>entry h0 e s1 h1.
            build_entry w a h = (Inr entry, h0) \<and> insert_log w entry s h0 = (Inl e, s1, h1) \<longrightarrow>
            (\<exists>r2 h4 ev.
                insert_log w entry (s1\<lparr>access_token := JNull\<rparr>)
                  (h1 @ [Log INFO Insert_failed_new_token, ForceNewToken]) = (r2, s', h4)
              \<and> h4 = h1 @ [Log INFO Insert_failed_new_token, ForceNewToken] @ ev
              \<and> (case r2 of
                    Inr _ \<Rightarrow> h' = h4
                  | Inl _ \<Rightarrow> h' = h4 @ [Log ERROR Failed_after_token_refresh, Log DEBUG Failed_log_entry])
              \<and> (posts ev = [auth_request s1]
                 \<or> (\<exists>tok. posts ev = [auth_request s1, InsertLog (url s1) (api_key s1) tok entry]))
              \<and> insert_calls h1 \<le> insert_calls h + 1 \<and> invalidations h1 = invalidations h
              \<and> insert_calls ev \<le> 1 \<and> invalidations ev = 0
              \<and> invalidations h' = invalidations h + 1))"
proof (cases "build_entry w a h")
  case (Pair rb h0)
  then have h0: "h0 = h @ [ReadClock]" by (rule build_entry_history)
  have q0: "insert_calls h0 = insert_calls h" "invalidations h0 = invalidations h"
    by (simp_all add: h0 insert_calls_def invalidations_def posts_append)
  let ?mid = "[Log INFO Insert_failed_new_token, ForceNewToken]"
  let ?tail = "[Log ERROR Failed_after_token_refresh, Log DEBUG Failed_log_entry]"
  have mid: "insert_calls ?mid = 0" "invalidations ?mid = 1"
    "insert_calls ?tail = 0" "invalidations ?tail = 0"
    by (simp_all add: insert_calls_def invalidations_def)
  show ?thesis
  proof (cases rb)
    case (Inl e)
    with Pair assms have "h' = h0" by (simp add: log_success_def)
    with q0 Pair Inl show ?thesis by simp
  next
    case (Inr entry)
    with Pair assms have sw: "send_with_retry w entry s h0 = (r, s', h')"
      by (simp add: log_success_def)
    show ?thesis
    proof (cases rule: send_with_retry_cases[of w entry s h0])
      case (first_ok s1 h1)
      with sw have eq: "s' = s1" "h' = h1" by simp_all
      from insert_log_effects(1)[OF first_ok(1)]
      obtain ev1 where ev1: "h1 = h0 @ ev1" "insert_calls ev1 \<le> 1" "invalidations ev1 = 0" by blast
      have one: "insert_calls h1 = insert_calls h0 + 1"
        by (rule insert_log_ok_one_insert[OF first_ok(1)])
      have a: "insert_calls h' \<le> insert_calls h + 2 \<and> invalidations h' \<le> invalidations h + 1"
        using eq ev1 q0 one by (simp add: insert_calls_def invalidations_def posts_append)
      have b: "s' = s1 \<and> h' = h1 \<and> invalidations h' = invalidations h
            \<and> insert_calls h' = insert_calls h + 1"
        using eq ev1 q0 one by (simp add: insert_calls_def invalidations_def posts_append)
      from a b Pair Inr first_ok(1) show ?thesis by auto
    next
      case (retry_ok e s1 h1 s3 h4)
      from sw retry_ok have fin: "s' = s3" "h' = h4" by simp_all
      from insert_log_effects(1)[OF retry_ok(1)]
      obtain ev1 where ev1: "h1 = h0 @ ev1" "insert_calls ev1 \<le> 1" "invalidations ev1 = 0" by blast
      from insert_log_effects(1)[OF retry_ok(2)]
      obtain ev2 where ev2: "h4 = (h1 @ ?mid) @ ev2" "insert_calls ev2 \<le> 1" "invalidations ev2 = 0"
        by blast
      have "access_token (s1\<lparr>access_token := JNull\<rparr>) = JNull" by simp
      from insert_log_no_token[OF this retry_ok(2)] ev2(1)
      have pe: "posts ev2 = [auth_request s1]
          \<or> (\<exists>tok. posts ev2 = [auth_request s1, InsertLog (url s1) (api_key s1) tok entry])"
        by (auto simp: auth_request_def)
      have a: "insert_calls h' \<le> insert_calls h + 2 \<and> invalidations h' \<le> invalidations h + 1
             \<and> invalidations h' = invalidations h + 1"
        using fin ev1 ev2 mid q0
        by (simp add: insert_calls_def invalidations_def posts_append)
      have b: "h4 = h1 @ ?mid @ ev2 \<and> insert_calls h1 \<le> insert_calls h + 1
             \<and> invalidations h1 = invalidations h"
        using ev1 ev2 q0 by (simp add: insert_calls_def invalidations_def posts_append)
      have c: "\<exists>r2 h4' ev.
                insert_log w entry (s1\<lparr>access_token := JNull\<rparr>) (h1 @ ?mid) = (r2, s', h4')
              \<and> h4' = h1 @ ?mid @ ev
              \<and> (case r2 of Inr _ \<Rightarrow> h' = h4' | Inl _ \<Rightarrow> h' = h4' @ ?tail)
              \<and> (posts ev = [auth_request s1]
                 \<or> (\<exists>tok. posts ev = [auth_request s1, InsertLog (url s1) (api_key s1) tok entry]))
              \<and> insert_calls h1 \<le> insert_calls h + 1 \<and> invalidations h1 = invalidations h
              \<and> insert_calls ev \<le> 1 \<and> invalidations ev = 0
              \<and> invalidations h' = invalidations h + 1"
        using retry_ok(2) fin a b pe ev2(2,3)
        by (intro exI[of _ "Inr ()"] exI[of _ h4] exI[of _ ev2]) simp
      from a c Pair Inr retry_ok(1) show ?thesis by auto
    next
      case (both_failed e s1 h1 e' s3 h4)
      from sw both_failed have fin: "s' = s3" "h' = h4 @ ?tail" by simp_all
      from insert_log_effects(1)[OF both_failed(1)]
      obtain ev1 where ev1: "h1 = h0 @ ev1" "insert_calls ev1 \<le> 1" "invalidations ev1 = 0" by blast
      from insert_log_effects(1)[OF both_failed(2)]
      obtain ev2 where ev2: "h4 = (h1 @ ?mid) @ ev2" "insert_calls ev2 \<le> 1" "invalidations ev2 = 0"
        by blast
      have "access_token (s1\<lparr>access_token := JNull\<rparr>) = JNull" by simp
      from insert_log_no_token[OF this both_failed(2)] ev2(1)
      have pe: "posts ev2 = [auth_request s1]
          \<or> (\<exists>tok. posts ev2 = [auth_request s1, InsertLog (url s1) (api_key s1) tok entry])"
        by (auto simp: auth_request_def)
      have a: "insert_calls h' \<le> insert_calls h + 2 \<and> invalidations h' \<le> invalidations h + 1
             \<and> invalidations h' = invalidations h + 1"
        using fin ev1 ev2 mid q0
        by (simp add: insert_calls_def invalidations_def posts_append)
      have b: "h4 = h1 @ ?mid @ ev2 \<and> insert_calls h1 \<le> insert_calls h + 1
             \<and> invalidations h1 = invalidations h"
        using ev1 ev2 q0 by (simp add: insert_calls_def invalidations_def posts_append)
      have c: "\<exists>r2 h4' ev.
                insert_log w entry (s1\<lparr>access_token := JNull\<rparr>) (h1 @ ?mid) = (r2, s', h4')
              \<and> h4' = h1 @ ?mid @ ev
              \<and> (case r2 of Inr _ \<Rightarrow> h' = h4' | Inl _ \<Rightarrow> h' = h4' @ ?tail)
              \<and> (posts ev = [auth_request s1]
                 \<or> (\<exists>tok. posts ev = [auth_request s1, InsertLog (url s1) (api_key s1) tok entry]))
              \<and> insert_calls h1 \<le> insert_calls h + 1 \<and> invalidations h1 = invalidations h
              \<and> insert_calls ev \<le> 1 \<and> invalidations ev = 0
              \<and> invalidations h' = invalidations h + 1"
        using both_failed(2) fin a b pe ev2(2,3)
        by (intro exI[of _ "Inl e'"] exI[of _ h4] exI[of _ ev2]) simp
      from a c Pair Inr both_failed(1) show ?thesis by auto
    qed
  qed
qed

theorem log_success_insert_attempts_witness:
  "build_entry demo_env demo_args [] = (Inr demo_entry, [ReadClock])
   \<and> fst (insert_log demo_env demo_entry demo_logger [ReadClock]) = Inl (HTTPError 401)
   \<and> access_token (fst (snd (insert_log demo_env demo_entry demo_logger [ReadClock]))) = JStr ''t1''
   \<and> posts (snd (snd (log_success demo_env demo_args demo_logger [])))
       = [auth_request demo_logger,
          InsertLog (url demo_logger) (api_key demo_logger) (JStr ''t1'') demo_entry,
          auth_request demo_logger,
          InsertLog (url demo_logger) (api_key demo_logger) (JStr ''t2'') demo_entry]
   \<and> insert_calls (snd (snd (log_success demo_env demo_args demo_logger []))) = 2
   \<and> invalidations (snd (snd (log_success demo_env demo_args demo_logger []))) = 1"
  using log_success_insert_attempts [of demo_env demo_args demo_logger "[]"
      "fst (log_success demo_env demo_args demo_logger [])"
      "fst (snd (log_success demo_env demo_args demo_logger []))"
      "snd (snd (log_success demo_env demo_args demo_logger []))"]
    demo_build demo_first_attempt demo_log_success
  by (simp add: count_defs auth_request_def)

subsection \<open>C8: 401 on the first insert, 200 on the second\<close>

text \<open>
  In the scenario of the claim the logger authenticates twice, not once: the
  invalidation removes the token of the first authentication, so the retry
  authenticates again before it inserts.
\<close>

theorem retry_scenario_authenticates_twice:
  "log_success demo_env demo_args demo_logger []
     = (Inr (),
        demo_logger\<lparr>access_token := JStr ''t2'', refresh_token := JStr ''r-t2'', expires_at := Some 4600\<rparr>,
        [ReadClock,
         Post (auth_request demo_logger), ReadClock, Log INFO Authenticated,
         Post (InsertLog (url demo_logger) (api_key demo_logger) (JStr ''t1'') demo_entry),
         Log INFO Insert_failed_new_token, ForceNewToken,
         Post (auth_request demo_logger), ReadClock, Log INFO Authenticated,
         Post (InsertLog (url demo_logger) (api_key demo_logger) (JStr ''t2'') demo_entry),
         Log INFO Logged_bot_response])
   \<and> auth_calls (snd (snd (log_success demo_env demo_args demo_logger []))) = 2"
  by (simp add: run_defs demo_defs count_defs)

text \<open>
  Claim C8, as amended. A newly constructed logger in a new world, a server that grants
  every password request and answers the first insert with 401 and the next with 200,
  arguments from which the entry can be built: \<open>log_success\<close> returns normally after
  exactly these steps: password request, insert request (failed), invalidation, password
  request, insert request (successful). There are two password requests, two insert
  requests, one invalidation and no refresh request.
\<close>

theorem retry_scenario:
  assumes "\<forall>h. grants (respond w h (auth_request (init u k em p)))"
    and "\<forall>h req. is_insert req \<longrightarrow>
           (\<exists>b. respond w h req = Response (if insert_calls h = 0 then 401 else 200) b)"
    and "aware (arg_request_time a) = aware (arg_response_time a)"
  shows "\<exists>s' h' entry t1 t2.
           log_success w a (init u k em p) [] = (Inr (), s', h')
         \<and> h' = [ReadClock,
                 Post (auth_request (init u k em p)), ReadClock, Log INFO Authenticated,
                 Post (InsertLog u k t1 entry),
                 Log INFO Insert_failed_new_token, ForceNewToken,
                 Post (auth_request (init u k em p)), ReadClock, Log INFO Authenticated,
                 Post (InsertLog u k t2 entry), Log INFO Logged_bot_response]
         \<and> auth_calls h' = 2 \<and> insert_calls h' = 2 \<and> invalidations h' = 1
         \<and> refresh_calls h' = 0"
proof -
  let ?s0 = "init u k em p"
  let ?A = "auth_request ?s0"
  have s0: "access_token ?s0 = JNull" "url ?s0 = u" "api_key ?s0 = k"
    by (simp_all add: init_def)
  from build_entry_ok[OF assms(3), of w "[]"] obtain entry where
    b: "build_entry w a [] = (Inr entry, [ReadClock])" by auto
  \<comment> \<open>first attempt\<close>
  let ?h0 = "[ReadClock]"
  from authenticate_grants[of w ?h0 ?s0] assms(1)
  obtain s1 where a1: "authenticate w ?s0 ?h0 = (Inr (), s1, ?h0 @ [Post ?A, ReadClock, Log INFO Authenticated])"
    and c1: "same_config ?s0 s1" by blast
  let ?h1 = "?h0 @ [Post ?A, ReadClock, Log INFO Authenticated]"
  let ?t1 = "access_token s1"
  have g1: "get_valid_token w ?s0 ?h0 = (Inr ?t1, s1, ?h1)"
    using a1 s0 by (simp add: get_valid_token_def authenticate_and_return_def)
  have u1: "url s1 = u" "api_key s1 = k" "auth_request s1 = ?A"
    using c1 s0 by (simp_all add: same_config_def auth_request_def)
  let ?I1 = "InsertLog u k ?t1 entry"
  have ic1: "insert_calls ?h1 = 0"
    by (simp add: insert_calls_def auth_request_def)
  have "is_insert ?I1" by simp
  with assms(2) have "\<exists>b. respond w ?h1 ?I1 = Response (if insert_calls ?h1 = 0 then 401 else 200) b"
    by blast
  with ic1 obtain b1 where r1: "respond w ?h1 ?I1 = Response 401 b1"
    by auto
  have i1: "insert_log w entry ?s0 ?h0 = (Inl (HTTPError 401), s1, ?h1 @ [Post ?I1])"
    using g1 u1 r1 by (simp add: insert_log_def Let_def raise_for_status_def)
  \<comment> \<open>the retry\<close>
  let ?s2 = "s1\<lparr>access_token := JNull\<rparr>"
  let ?h3 = "(?h1 @ [Post ?I1]) @ [Log INFO Insert_failed_new_token, ForceNewToken]"
  have u2: "auth_request ?s2 = ?A" "access_token ?s2 = JNull"
    using u1 by (simp_all add: auth_request_def)
  from authenticate_grants[of w ?h3 ?s2] assms(1) u2
  obtain s3 where a2: "authenticate w ?s2 ?h3 = (Inr (), s3, ?h3 @ [Post ?A, ReadClock, Log INFO Authenticated])"
    and c2: "same_config ?s2 s3" by auto
  let ?h4 = "?h3 @ [Post ?A, ReadClock, Log INFO Authenticated]"
  let ?t2 = "access_token s3"
  have g2: "get_valid_token w ?s2 ?h3 = (Inr ?t2, s3, ?h4)"
    using a2 u2 by (simp add: get_valid_token_def authenticate_and_return_def)
  have u3: "url s3 = u" "api_key s3 = k"
    using c2 u1 by (simp_all add: same_config_def)
  let ?I2 = "InsertLog u k ?t2 entry"
  have ic2: "insert_calls ?h4 \<noteq> 0"
    by (simp add: insert_calls_def auth_request_def)
  have "is_insert ?I2" by simp
  with assms(2) have "\<exists>b. respond w ?h4 ?I2 = Response (if insert_calls ?h4 = 0 then 401 else 200) b"
    by blast
  with ic2 obtain b2 where r2: "respond w ?h4 ?I2 = Response 200 b2"
    by auto
  have i2: "insert_log w entry ?s2 ?h3
             = (Inr (), s3, ?h4 @ [Post ?I2, Log INFO Logged_bot_response])"
    using g2 u3 r2 by (simp add: insert_log_def Let_def raise_for_status_def)
  have ls: "log_success w a ?s0 [] = (Inr (), s3, ?h4 @ [Post ?I2, Log INFO Logged_bot_response])"
    using b i1 i2 by (simp add: log_success_def send_with_retry_def Let_def)
  have cnt: "auth_calls (?h4 @ [Post ?I2, Log INFO Logged_bot_response]) = 2"
    "insert_calls (?h4 @ [Post ?I2, Log INFO Logged_bot_response]) = 2"
    "invalidations (?h4 @ [Post ?I2, Log INFO Logged_bot_response]) = 1"
    "refresh_calls (?h4 @ [Post ?I2, Log INFO Logged_bot_response]) = 0"
    by (simp_all add: auth_calls_def insert_calls_def invalidations_def refresh_calls_def
        auth_request_def)
  from ls cnt show ?thesis
    by (intro exI[of _ s3] exI[of _ "?h4 @ [Post ?I2, Log INFO Logged_bot_response]"]
        exI[of _ entry] exI[of _ ?t1] exI[of _ ?t2]) simp
qed

theorem retry_scenario_witness:
  "fst (log_success demo_env demo_args demo_logger []) = Inr ()
   \<and> auth_calls (snd (snd (log_success demo_env demo_args demo_logger []))) = 2
   \<and> insert_calls (snd (snd (log_success demo_env demo_args demo_logger []))) = 2
   \<and> invalidations (snd (snd (log_success demo_env demo_args demo_logger []))) = 1"
  using retry_scenario [OF demo_env_grants demo_env_inserts demo_args_comparable,
      of "Some ''https://db.example''" "Some ''anon-key''" "Some ''bot@example.com''"
         "Some ''secret''"]
  by (auto simp: demo_logger_def)

subsection \<open>C9: a token without an expiry\<close>

text \<open>
  A stored empty string is present (it is not \<open>None\<close>) and fails the test of line 52:
  with the empty string as access token and no expiry, \<open>_get_valid_token\<close> sends a
  password request.
\<close>

theorem get_valid_token_empty_token_no_expiry:
  "access_token (empty_token_logger None) = JStr []
   \<and> expires_at (empty_token_logger None) = None
   \<and> get_valid_token demo_env (empty_token_logger None) []
       = (Inr (JStr ''t1''),
          demo_logger\<lparr>access_token := JStr ''t1'', refresh_token := JStr ''r-t1'',
            expires_at := Some 4600\<rparr>,
          [Post (auth_request demo_logger), ReadClock, Log INFO Authenticated])"
  by (simp add: run_defs demo_defs count_defs)

text \<open>
  Claim C9, as amended. When \<open>access_token\<close> is true in Python's sense (it passes the
  test of line 52: it is not \<open>None\<close> and not an empty or zero value) and \<open>expires_at\<close>
  is \<open>None\<close>, \<open>_get_valid_token\<close> returns the stored token and sends no request,
  whatever the clock shows and whatever refresh token is stored.
\<close>

theorem get_valid_token_no_expiry:
  assumes "truthy (access_token s)" and "expires_at s = None"
  shows "get_valid_token w s h = (Inr (access_token s), s, h @ [ReadClock])
       \<and> posts (h @ [ReadClock]) = posts h"
  using assms by (simp add: get_valid_token_def Let_def posts_append)

theorem get_valid_token_no_expiry_witness:
  "truthy (access_token (held_logger None))
   \<and> expires_at (held_logger None) = None
   \<and> truthy (refresh_token (held_logger None))
   \<and> get_valid_token demo_env (held_logger None) []
       = (Inr (JStr ''t0''), held_logger None, [ReadClock])"
  using get_valid_token_no_expiry [of "held_logger None" demo_env "[]"]
  by (simp add: demo_defs)

subsection \<open>C10: the retry authenticates with the password\<close>

text \<open>
  Claim C10. After a failed first attempt, the retry starts from the state that attempt
  left with \<open>access_token\<close> set to \<open>None\<close> and \<open>refresh_token\<close>, \<open>expires_at\<close> and the
  settings unchanged. The retry sends exactly one password request, possibly followed by
  the insert request, and never a refresh request, whatever refresh token is stored.
  If the password request gets no response, that state is also the final one.
\<close>

theorem retry_always_authenticates:
  assumes "build_entry w a h = (Inr entry, h0)"
    and "insert_log w entry s h0 = (Inl e, s1, h1)"
    and "log_success w a s h = (r, s', h')"
  shows "\<exists>s2 r2 h4 ev.
           access_token s2 = JNull \<and> refresh_token s2 = refresh_token s1
         \<and> expires_at s2 = expires_at s1 \<and> same_config s1 s2
         \<and> insert_log w entry s2 (h1 @ [Log INFO Insert_failed_new_token, ForceNewToken]) = (r2, s', h4)
         \<and> h' = h1 @ [Log INFO Insert_failed_new_token, ForceNewToken] @ ev
         \<and> (posts ev = [auth_request s1]
            \<or> (\<exists>tok. posts ev = [auth_request s1, InsertLog (url s1) (api_key s1) tok entry]))
         \<and> auth_calls ev = 1 \<and> refresh_calls ev = 0
         \<and> (respond w (h1 @ [Log INFO Insert_failed_new_token, ForceNewToken]) (auth_request s1) = PostRaised
              \<longrightarrow> s' = s2)"
proof -
  let ?s2 = "s1\<lparr>access_token := JNull\<rparr>"
  let ?h3 = "h1 @ [Log INFO Insert_failed_new_token, ForceNewToken]"
  let ?tail = "[Log ERROR Failed_after_token_refresh, Log DEBUG Failed_log_entry]"
  have s2: "access_token ?s2 = JNull" "refresh_token ?s2 = refresh_token s1"
    "expires_at ?s2 = expires_at s1" "same_config s1 ?s2"
    by (simp_all add: same_config_def)
  then have ar: "auth_request ?s2 = auth_request s1" "url ?s2 = url s1" "api_key ?s2 = api_key s1"
    by (simp_all add: auth_request_def)
  obtain r2 s3 h4 where il: "insert_log w entry ?s2 ?h3 = (r2, s3, h4)"
    by (cases "insert_log w entry ?s2 ?h3") auto
  from assms il have fin: "s' = s3 \<and> (h' = h4 \<or> h' = h4 @ ?tail)"
    by (auto simp: log_success_def send_with_retry_def Let_def split: sum.splits)
  from insert_log_no_token[OF s2(1) il] ar
  obtain ev where ev: "h4 = ?h3 @ ev"
    "posts ev = [auth_request s1]
      \<or> (\<exists>tok. posts ev = [auth_request s1, InsertLog (url s1) (api_key s1) tok entry])"
    by auto
  define ev' where "ev' = (if h' = h4 then ev else ev @ ?tail)"
  have h': "h' = h1 @ [Log INFO Insert_failed_new_token, ForceNewToken] @ ev'"
    using fin ev(1) by (auto simp: ev'_def)
  have pev: "posts ev' = posts ev"
    by (simp add: ev'_def posts_append)
  have cnt: "auth_calls ev' = 1 \<and> refresh_calls ev' = 0"
    using ev(2) pev by (auto simp: auth_calls_def refresh_calls_def auth_request_def)
  have raised: "s' = ?s2" if "respond w ?h3 (auth_request s1) = PostRaised"
  proof -
    from that ar(1) have "authenticate w ?s2 ?h3
        = (Inl UnboundLocalError, ?s2, ?h3 @ [Post (auth_request s1), Log ERROR Authentication_failed])"
      by (simp add: authenticate_def Let_def)
    then have "insert_log w entry ?s2 ?h3
        = (Inl UnboundLocalError, ?s2, ?h3 @ [Post (auth_request s1), Log ERROR Authentication_failed])"
      by (simp add: insert_log_def get_valid_token_def authenticate_and_return_def)
    with il fin show ?thesis by simp
  qed
  from s2 il fin h' ev(2) pev cnt raised show ?thesis
    by (intro exI[of _ ?s2] exI[of _ r2] exI[of _ h4] exI[of _ ev']) auto
qed

theorem retry_always_authenticates_witness:
  "build_entry demo_env demo_args [] = (Inr demo_entry, [ReadClock])
   \<and> fst (insert_log demo_env demo_entry demo_logger [ReadClock]) = Inl (HTTPError 401)
   \<and> truthy (refresh_token (fst (snd (insert_log demo_env demo_entry demo_logger [ReadClock]))))
   \<and> refresh_calls (snd (snd (log_success demo_env demo_args demo_logger []))) = 0
   \<and> auth_calls (snd (snd (log_success demo_env demo_args demo_logger []))) = 2"
  using retry_always_authenticates [OF demo_build demo_first_attempt demo_log_success]
    demo_build demo_first_attempt demo_log_success
  by (simp add: count_defs auth_request_def)

end
